theory Spec2Isabelle
  imports Complex_Main "HOL-Library.AList"
begin

section \<open>Deadline reminders of the student bot (GitHub.py)\<close>

text \<open>
  The development embeds the deadline store and the reminder scan of
  \<^verbatim>\<open>GitHub.py\<close>: the classes \<^verbatim>\<open>GlobalDeadlineManager\<close> and
  \<^verbatim>\<open>UserDeadlineManager\<close> with their \<^verbatim>\<open>add_deadline\<close>,
  \<^verbatim>\<open>remove_deadline\<close> and periodic check methods, and the constants of
  \<^verbatim>\<open>Config\<close> they read.

  Modelling conventions.
  \<^item> A Python \<^verbatim>\<open>str\<close> is a \<open>string\<close>; a character stands for the code point of
    the same number (U+0000 to U+00FF). In that range the class \<^verbatim>\<open>\d\<close> of the
    \<^verbatim>\<open>re\<close> module is exactly the ten ASCII digits.
  \<^item> A \<^verbatim>\<open>datetime\<close> is the record of its fields; subtraction goes through the
    proleptic Gregorian ordinal as in the standard library, and a \<^verbatim>\<open>timedelta\<close>
    is its number of microseconds.
  \<^item> \<^verbatim>\<open>total_seconds() / 3600\<close> and \<^verbatim>\<open>h - CHECK_INTERVAL / 3600\<close> are computed
    over the reals (the source uses binary floating point).
  \<^item> \<^verbatim>\<open>datetime.now()\<close> is an argument of every operation that reads the clock.
  \<^item> Writing the JSON files (\<^verbatim>\<open>Database.save_json\<close>) is not part of the state:
    the state is what the manager objects hold in memory.
  \<^item> One periodic check runs from its first to its last statement without another
    handler changing the managers in between.
\<close>

subsection \<open>Config\<close>

definition CHECK_INTERVAL :: nat where
  "CHECK_INTERVAL = 60"

definition REMINDER_HOURS :: "nat list" where
  "REMINDER_HOURS = [24, 72, 120]"

subsection \<open>Characters and decimal numerals\<close>

definition chr_in :: "char \<Rightarrow> char \<Rightarrow> char \<Rightarrow> bool" where
  "chr_in lo hi c = ((of_char lo :: nat) \<le> of_char c \<and> (of_char c :: nat) \<le> of_char hi)"

definition is_digit :: "char \<Rightarrow> bool" where
  "is_digit c = chr_in CHR ''0'' CHR ''9'' c"

definition digit_val :: "char \<Rightarrow> nat" where
  "digit_val c = of_char c - 48"

definition digit_chr :: "nat \<Rightarrow> char" where
  "digit_chr n = ''0123456789'' ! n"

text \<open>\<^verbatim>\<open>int(s)\<close> on a matched group: leading blanks are stripped, the rest is read
  in base ten.\<close>

definition decimal :: "string \<Rightarrow> nat" where
  "decimal s = foldl (\<lambda>n c. 10 * n + digit_val c) 0 s"

definition int_of_group :: "string \<Rightarrow> nat" where
  "int_of_group s = decimal (dropWhile (\<lambda>c. c = CHR '' '') s)"

text \<open>\<^verbatim>\<open>str(n)\<close> for a non-negative integer.\<close>

fun str_nat :: "nat \<Rightarrow> string" where
  "str_nat n = (if n < 10 then [digit_chr n] else str_nat (n div 10) @ [digit_chr (n mod 10)])"

declare str_nat.simps [simp del]

definition zfill :: "nat \<Rightarrow> string \<Rightarrow> string" where
  "zfill w s = replicate (w - length s) CHR ''0'' @ s"

subsection \<open>datetime\<close>

record datetime =
  year :: nat
  month :: nat
  day :: nat
  hour :: nat
  minute :: nat
  second :: nat
  microsecond :: nat

definition is_leap :: "nat \<Rightarrow> bool" where
  "is_leap y = (y mod 4 = 0 \<and> (y mod 100 \<noteq> 0 \<or> y mod 400 = 0))"

definition DAYS_IN_MONTH :: "nat list" where
  "DAYS_IN_MONTH = [31, 28, 31, 30, 31, 30, 31, 31, 30, 31, 30, 31]"

definition days_in_month :: "nat \<Rightarrow> nat \<Rightarrow> nat" where
  "days_in_month y m = (if m = 2 \<and> is_leap y then 29 else DAYS_IN_MONTH ! (m - 1))"

definition days_before_year :: "nat \<Rightarrow> int" where
  "days_before_year y =
     (let p = int y - 1 in p * 365 + p div 4 - p div 100 + p div 400)"

definition days_before_month :: "nat \<Rightarrow> nat \<Rightarrow> int" where
  "days_before_month y m =
     int (sum_list (take (m - 1) DAYS_IN_MONTH)) + (if m > 2 \<and> is_leap y then 1 else 0)"

definition ymd2ord :: "nat \<Rightarrow> nat \<Rightarrow> nat \<Rightarrow> int" where
  "ymd2ord y m d = days_before_year y + days_before_month y m + int d"

definition toordinal :: "datetime \<Rightarrow> int" where
  "toordinal t = ymd2ord (year t) (month t) (day t)"

text \<open>The constructor \<^verbatim>\<open>datetime(year, month, day)\<close> raises \<^verbatim>\<open>ValueError\<close> outside
  these ranges; the time of day is midnight.\<close>

definition check_date_fields :: "nat \<Rightarrow> nat \<Rightarrow> nat \<Rightarrow> bool" where
  "check_date_fields y m d =
     (1 \<le> y \<and> y \<le> 9999 \<and> 1 \<le> m \<and> m \<le> 12 \<and> 1 \<le> d \<and> d \<le> days_in_month y m)"

definition make_date :: "nat \<Rightarrow> nat \<Rightarrow> nat \<Rightarrow> datetime option" where
  "make_date y m d =
     (if check_date_fields y m d
      then Some \<lparr>year = y, month = m, day = d, hour = 0, minute = 0, second = 0, microsecond = 0\<rparr>
      else None)"

text \<open>\<^verbatim>\<open>a - b\<close> on two datetimes, as a number of microseconds, and
  \<^verbatim>\<open>timedelta.total_seconds()\<close>.\<close>

definition day_seconds :: "datetime \<Rightarrow> int" where
  "day_seconds t = int (second t) + int (minute t) * 60 + int (hour t) * 3600"

definition datetime_sub :: "datetime \<Rightarrow> datetime \<Rightarrow> int" where
  "datetime_sub a b =
     ((toordinal a - toordinal b) * 86400 + (day_seconds a - day_seconds b)) * 1000000
       + (int (microsecond a) - int (microsecond b))"

definition total_seconds :: "int \<Rightarrow> real" where
  "total_seconds td = real_of_int td / 1000000"

text \<open>\<^verbatim>\<open>strftime("%Y-%m-%d %H:%M:%S")\<close>, for the years of four digits that the clock
  gives.\<close>

definition strftime :: "datetime \<Rightarrow> string" where
  "strftime t =
     zfill 4 (str_nat (year t)) @ ''-'' @ zfill 2 (str_nat (month t)) @ ''-''
       @ zfill 2 (str_nat (day t)) @ '' '' @ zfill 2 (str_nat (hour t)) @ '':''
       @ zfill 2 (str_nat (minute t)) @ '':'' @ zfill 2 (str_nat (second t))"

subsection \<open>strptime with the format %d.%m.%Y\<close>

text \<open>
  \<^verbatim>\<open>datetime.strptime(s, "%d.%m.%Y")\<close> matches \<open>s\<close> against the regular expression
  \<^verbatim>\<open>(?P<d>3[0-1]|[1-2]\d|0[1-9]|[1-9]| [1-9])\.(?P<m>1[0-2]|0[1-9]|[1-9])\.(?P<Y>\d\d\d\d)\<close>,
  raises \<^verbatim>\<open>ValueError\<close> when there is no match or when input remains after the
  match, and builds the date from the three groups. Each function below returns the
  text of its group and the rest of the input. A two-character alternative and the
  one-character alternative of a group cannot both be followed by the dot, so taking the
  first alternative that matches is what the backtracking matcher finds.
\<close>

fun re_d :: "string \<Rightarrow> (string \<times> string) option" where
  "re_d (a # b # s) =
     (if a = CHR ''3'' \<and> chr_in CHR ''0'' CHR ''1'' b then Some ([a, b], s)
      else if chr_in CHR ''1'' CHR ''2'' a \<and> is_digit b then Some ([a, b], s)
      else if a = CHR ''0'' \<and> chr_in CHR ''1'' CHR ''9'' b then Some ([a, b], s)
      else if chr_in CHR ''1'' CHR ''9'' a then Some ([a], b # s)
      else if a = CHR '' '' \<and> chr_in CHR ''1'' CHR ''9'' b then Some ([a, b], s)
      else None)"
| "re_d [a] = (if chr_in CHR ''1'' CHR ''9'' a then Some ([a], []) else None)"
| "re_d [] = None"

fun re_m :: "string \<Rightarrow> (string \<times> string) option" where
  "re_m (a # b # s) =
     (if a = CHR ''1'' \<and> chr_in CHR ''0'' CHR ''2'' b then Some ([a, b], s)
      else if a = CHR ''0'' \<and> chr_in CHR ''1'' CHR ''9'' b then Some ([a, b], s)
      else if chr_in CHR ''1'' CHR ''9'' a then Some ([a], b # s)
      else None)"
| "re_m [a] = (if chr_in CHR ''1'' CHR ''9'' a then Some ([a], []) else None)"
| "re_m [] = None"

fun re_Y :: "string \<Rightarrow> (string \<times> string) option" where
  "re_Y (a # b # c # d # s) =
     (if is_digit a \<and> is_digit b \<and> is_digit c \<and> is_digit d then Some ([a, b, c, d], s)
      else None)"
| "re_Y _ = None"

fun re_dot :: "string \<Rightarrow> string option" where
  "re_dot (c # s) = (if c = CHR ''.'' then Some s else None)"
| "re_dot [] = None"

definition strptime :: "string \<Rightarrow> datetime option" where
  "strptime s =
     (case re_d s of None \<Rightarrow> None
      | Some (gd, s1) \<Rightarrow>
     (case re_dot s1 of None \<Rightarrow> None
      | Some s2 \<Rightarrow>
     (case re_m s2 of None \<Rightarrow> None
      | Some (gm, s3) \<Rightarrow>
     (case re_dot s3 of None \<Rightarrow> None
      | Some s4 \<Rightarrow>
     (case re_Y s4 of None \<Rightarrow> None
      | Some (gy, s5) \<Rightarrow>
         if s5 \<noteq> [] then None
         else make_date (int_of_group gy) (int_of_group gm) (int_of_group gd))))))"

subsection \<open>Deadline records and the two managers\<close>

record deadline_item =
  subject :: string
  task :: string
  deadline :: string
  created_at :: string

type_synonym ledger = "string \<rightharpoonup> string"

text \<open>\<^verbatim>\<open>GlobalDeadlineManager\<close>: one list of deadlines and one ledger of sent
  reminders.\<close>

record global_deadline_manager =
  g_deadlines :: "deadline_item list"
  g_sent_reminders :: ledger

text \<open>\<^verbatim>\<open>UserDeadlineManager\<close>: a dict from user id to that user's list, in
  insertion order, and a ledger of its own.\<close>

record user_deadline_manager =
  u_deadlines :: "(string \<times> deadline_item list) list"
  u_sent_reminders :: ledger

definition new_item :: "datetime \<Rightarrow> string \<Rightarrow> string \<Rightarrow> string \<Rightarrow> deadline_item" where
  "new_item now subj tsk date_str =
     \<lparr>subject = subj, task = tsk, deadline = date_str, created_at = strftime now\<rparr>"

text \<open>\<^verbatim>\<open>list.pop(i)\<close> for an index already checked to be in range.\<close>

definition list_pop :: "'a list \<Rightarrow> nat \<Rightarrow> 'a list" where
  "list_pop xs i = take i xs @ drop (Suc i) xs"

text \<open>\<^verbatim>\<open>d.get(k, [])\<close>.\<close>

definition dict_get :: "(string \<times> 'a list) list \<Rightarrow> string \<Rightarrow> 'a list" where
  "dict_get d k = (case map_of d k of None \<Rightarrow> [] | Some v \<Rightarrow> v)"

subsubsection \<open>GlobalDeadlineManager\<close>

definition global_add_deadline ::
  "datetime \<Rightarrow> string \<Rightarrow> string \<Rightarrow> string \<Rightarrow> global_deadline_manager \<Rightarrow> bool \<times> global_deadline_manager" where
  "global_add_deadline now subj tsk date_str m =
     (case strptime date_str of
        None \<Rightarrow> (False, m)
      | Some _ \<Rightarrow> (True, m\<lparr>g_deadlines := g_deadlines m @ [new_item now subj tsk date_str]\<rparr>))"

definition get_deadlines :: "global_deadline_manager \<Rightarrow> deadline_item list" where
  "get_deadlines m = g_deadlines m"

definition global_remove_deadline :: "int \<Rightarrow> global_deadline_manager \<Rightarrow> bool \<times> global_deadline_manager" where
  "global_remove_deadline index m =
     (if 0 \<le> index \<and> index < int (length (g_deadlines m))
      then (True, m\<lparr>g_deadlines := list_pop (g_deadlines m) (nat index)\<rparr>)
      else (False, m))"

subsubsection \<open>UserDeadlineManager\<close>

definition user_add_deadline ::
  "datetime \<Rightarrow> string \<Rightarrow> string \<Rightarrow> string \<Rightarrow> string \<Rightarrow> user_deadline_manager \<Rightarrow> bool \<times> user_deadline_manager" where
  "user_add_deadline now user_id subj tsk date_str m =
     (case strptime date_str of
        None \<Rightarrow> (False, m)
      | Some _ \<Rightarrow>
          (let d1 = (if map_of (u_deadlines m) user_id = None
                     then AList.update user_id [] (u_deadlines m) else u_deadlines m);
               d2 = AList.update user_id (dict_get d1 user_id @ [new_item now subj tsk date_str]) d1
           in (True, m\<lparr>u_deadlines := d2\<rparr>)))"

definition get_user_deadlines :: "user_deadline_manager \<Rightarrow> string \<Rightarrow> deadline_item list" where
  "get_user_deadlines m user_id = dict_get (u_deadlines m) user_id"

definition user_remove_deadline :: "string \<Rightarrow> int \<Rightarrow> user_deadline_manager \<Rightarrow> bool \<times> user_deadline_manager" where
  "user_remove_deadline user_id index m =
     (let arr = dict_get (u_deadlines m) user_id in
      if 0 \<le> index \<and> index < int (length arr)
      then (True, m\<lparr>u_deadlines := AList.update user_id (list_pop arr (nat index)) (u_deadlines m)\<rparr>)
      else (False, m))"

subsection \<open>The periodic checks\<close>

text \<open>
  What a check does to the outside world is recorded as a list of events, in the order
  of the source's statements: \<open>Send k uid msg ok\<close> is one call of
  \<^verbatim>\<open>context.bot.send_message(chat_id=uid, text=msg)\<close> made for the reminder with
  ledger key \<open>k\<close>, where \<open>ok\<close> is false when the call raised an exception (which the
  source catches and logs); \<open>Mark k ts\<close> is the assignment
  \<^verbatim>\<open>self.sent_reminders[k] = ts\<close>. The text of a message is kept as its parts: the
  heading of its scope, the three fields of the deadline, and the note chosen by the
  threshold.
\<close>

datatype note_text = OneDay | ThreeDays | FiveDays | Hours nat

datatype heading = GlobalDeadline | PersonalDeadline

record message =
  msg_heading :: heading
  msg_subject :: string
  msg_task :: string
  msg_deadline :: string
  msg_note :: note_text

datatype event = Send string string message bool | Mark string string

type_synonym transport = "string \<Rightarrow> message \<Rightarrow> bool"

definition note_for :: "nat \<Rightarrow> note_text" where
  "note_for h =
     (if h = 24 then OneDay else if h = 72 then ThreeDays
      else if h = 120 then FiveDays else Hours h)"

definition make_msg :: "heading \<Rightarrow> deadline_item \<Rightarrow> nat \<Rightarrow> message" where
  "make_msg scope dl h =
     \<lparr>msg_heading = scope, msg_subject = subject dl, msg_task = task dl,
      msg_deadline = deadline dl, msg_note = note_for h\<rparr>"

definition hours_left :: "datetime \<Rightarrow> datetime \<Rightarrow> real" where
  "hours_left dt now = total_seconds (datetime_sub dt now) / 3600"

text \<open>The test \<^verbatim>\<open>h >= hours_left > lb\<close> with \<^verbatim>\<open>lb = h - (Config.CHECK_INTERVAL / 3600)\<close>.\<close>

definition in_window :: "nat \<Rightarrow> real \<Rightarrow> bool" where
  "in_window h hl =
     (let lb = real h - real CHECK_INTERVAL / 3600 in real h \<ge> hl \<and> hl > lb)"

text \<open>A \<^verbatim>\<open>for x in xs\<close> loop whose body changes the ledger and emits events.\<close>

fun for_each :: "('a \<Rightarrow> ledger \<Rightarrow> event list \<times> ledger) \<Rightarrow> 'a list \<Rightarrow> ledger \<Rightarrow> event list \<times> ledger" where
  "for_each body [] sent = ([], sent)"
| "for_each body (x # xs) sent =
     (case body x sent of (ev, sent1) \<Rightarrow>
        (case for_each body xs sent1 of (ev', sent2) \<Rightarrow> (ev @ ev', sent2)))"

subsubsection \<open>GlobalDeadlineManager.check_deadlines\<close>

definition reminder_key :: "deadline_item \<Rightarrow> nat \<Rightarrow> string" where
  "reminder_key dl h = subject dl @ ''_'' @ deadline dl @ ''_'' @ str_nat h"

text \<open>The body of \<^verbatim>\<open>for h in Config.REMINDER_HOURS\<close>.\<close>

definition remind_global ::
  "string list \<Rightarrow> transport \<Rightarrow> datetime \<Rightarrow> deadline_item \<Rightarrow> real \<Rightarrow> nat \<Rightarrow> ledger
     \<Rightarrow> event list \<times> ledger" where
  "remind_global all_users send now dl hl h sent =
     (if in_window h hl then
        (let k = reminder_key dl h in
         if sent k = None then
           (let msg = make_msg GlobalDeadline dl h in
            (map (\<lambda>uid. Send k uid msg (send uid msg)) all_users @ [Mark k (strftime now)],
             sent(k \<mapsto> strftime now)))
         else ([], sent))
      else ([], sent))"

text \<open>The body of \<^verbatim>\<open>for dl in self.deadlines\<close>; \<^verbatim>\<open>except ValueError: continue\<close> is
  the branch \<open>None\<close>.\<close>

definition scan_global ::
  "string list \<Rightarrow> transport \<Rightarrow> datetime \<Rightarrow> deadline_item \<Rightarrow> ledger \<Rightarrow> event list \<times> ledger" where
  "scan_global all_users send now dl sent =
     (case strptime (deadline dl) of
        None \<Rightarrow> ([], sent)
      | Some dt \<Rightarrow>
          for_each (remind_global all_users send now dl (hours_left dt now)) REMINDER_HOURS sent)"

text \<open>The argument \<open>um\<close> is \<^verbatim>\<open>context.bot_data.get('user_deadline_manager')\<close>: \<open>None\<close> when
  the entry is missing, otherwise the users of the registry in the order in which the
  set is iterated.\<close>

definition check_deadlines ::
  "string list option \<Rightarrow> transport \<Rightarrow> datetime \<Rightarrow> global_deadline_manager \<Rightarrow> event list \<times> global_deadline_manager" where
  "check_deadlines um send now m =
     (case um of
        None \<Rightarrow> ([], m)
      | Some all_users \<Rightarrow>
          (case for_each (scan_global all_users send now) (g_deadlines m) (g_sent_reminders m) of
             (ev, sent') \<Rightarrow> (ev, m\<lparr>g_sent_reminders := sent'\<rparr>)))"

subsubsection \<open>UserDeadlineManager.check_personal_deadlines\<close>

definition r_key :: "string \<Rightarrow> deadline_item \<Rightarrow> nat \<Rightarrow> string" where
  "r_key user_id dl h = user_id @ ''_'' @ subject dl @ ''_'' @ deadline dl @ ''_'' @ str_nat h"

definition remind_personal ::
  "transport \<Rightarrow> datetime \<Rightarrow> string \<Rightarrow> deadline_item \<Rightarrow> real \<Rightarrow> nat \<Rightarrow> ledger
     \<Rightarrow> event list \<times> ledger" where
  "remind_personal send now user_id dl hl h sent =
     (if in_window h hl then
        (let k = r_key user_id dl h in
         if sent k = None then
           (let msg = make_msg PersonalDeadline dl h in
            ([Send k user_id msg (send user_id msg), Mark k (strftime now)],
             sent(k \<mapsto> strftime now)))
         else ([], sent))
      else ([], sent))"

definition scan_personal ::
  "transport \<Rightarrow> datetime \<Rightarrow> string \<Rightarrow> deadline_item \<Rightarrow> ledger \<Rightarrow> event list \<times> ledger" where
  "scan_personal send now user_id dl sent =
     (case strptime (deadline dl) of
        None \<Rightarrow> ([], sent)
      | Some dt \<Rightarrow>
          for_each (remind_personal send now user_id dl (hours_left dt now)) REMINDER_HOURS sent)"

text \<open>The body of \<^verbatim>\<open>for user_id, arr in self.deadlines.items()\<close>.\<close>

definition scan_user ::
  "transport \<Rightarrow> datetime \<Rightarrow> string \<times> deadline_item list \<Rightarrow> ledger \<Rightarrow> event list \<times> ledger" where
  "scan_user send now entry sent =
     (case entry of (user_id, arr) \<Rightarrow> for_each (scan_personal send now user_id) arr sent)"

definition check_personal_deadlines ::
  "transport \<Rightarrow> datetime \<Rightarrow> user_deadline_manager \<Rightarrow> event list \<times> user_deadline_manager" where
  "check_personal_deadlines send now m =
     (case for_each (scan_user send now) (u_deadlines m) (u_sent_reminders m) of
        (ev, sent') \<Rightarrow> (ev, m\<lparr>u_sent_reminders := sent'\<rparr>))"

subsection \<open>Traces and runs\<close>

text \<open>The ledger key an event belongs to, and the keys assigned in a trace, in order.\<close>

fun event_key :: "event \<Rightarrow> string" where
  "event_key (Send k uid msg ok) = k"
| "event_key (Mark k ts) = k"

fun mark_keys :: "event list \<Rightarrow> string list" where
  "mark_keys [] = []"
| "mark_keys (Mark k ts # ev) = k # mark_keys ev"
| "mark_keys (Send k uid msg ok # ev) = mark_keys ev"

fun is_send :: "event \<Rightarrow> bool" where
  "is_send (Send k uid msg ok) = True"
| "is_send (Mark k ts) = False"

text \<open>An event without the outcome of the call: what was attempted.\<close>

fun attempt :: "event \<Rightarrow> event" where
  "attempt (Send k uid msg ok) = Send k uid msg True"
| "attempt (Mark k ts) = Mark k ts"

text \<open>
  A run of a manager is any sequence of calls of its methods. Between two periodic
  checks deadlines may be added and removed, the registry of users may change, and the
  transport may behave differently at every check.
\<close>

datatype global_op =
    GAdd datetime string string string
  | GRemove int
  | GCheck "string list option" transport datetime

fun global_step :: "global_op \<Rightarrow> global_deadline_manager \<Rightarrow> event list \<times> global_deadline_manager" where
  "global_step (GAdd now subj tsk date_str) m = ([], snd (global_add_deadline now subj tsk date_str m))"
| "global_step (GRemove index) m = ([], snd (global_remove_deadline index m))"
| "global_step (GCheck um send now) m = check_deadlines um send now m"

fun global_run :: "global_op list \<Rightarrow> global_deadline_manager \<Rightarrow> event list \<times> global_deadline_manager" where
  "global_run [] m = ([], m)"
| "global_run (x # xs) m =
     (case global_step x m of (ev, m1) \<Rightarrow>
        (case global_run xs m1 of (ev', m2) \<Rightarrow> (ev @ ev', m2)))"

datatype user_op =
    UAdd datetime string string string string
  | URemove string int
  | UCheck transport datetime

fun user_step :: "user_op \<Rightarrow> user_deadline_manager \<Rightarrow> event list \<times> user_deadline_manager" where
  "user_step (UAdd now user_id subj tsk date_str) m =
     ([], snd (user_add_deadline now user_id subj tsk date_str m))"
| "user_step (URemove user_id index) m = ([], snd (user_remove_deadline user_id index m))"
| "user_step (UCheck send now) m = check_personal_deadlines send now m"

fun user_run :: "user_op list \<Rightarrow> user_deadline_manager \<Rightarrow> event list \<times> user_deadline_manager" where
  "user_run [] m = ([], m)"
| "user_run (x # xs) m =
     (case user_step x m of (ev, m1) \<Rightarrow>
        (case user_run xs m1 of (ev', m2) \<Rightarrow> (ev @ ev', m2)))"

text \<open>
  \<^verbatim>\<open>StudentBot\<close> holds the registry of users and the two managers, and registers
  the two checks as repeating jobs. The registry is the list of its users in the order
  in which the set is iterated. Each job works on its own manager.
\<close>

record student_bot =
  user_manager :: "string list"
  global_manager :: global_deadline_manager
  user_manager_deadline :: user_deadline_manager

definition job_check_deadlines :: "transport \<Rightarrow> datetime \<Rightarrow> student_bot \<Rightarrow> event list \<times> student_bot" where
  "job_check_deadlines send now app =
     (case check_deadlines (Some (user_manager app)) send now (global_manager app) of
        (ev, g) \<Rightarrow> (ev, app\<lparr>global_manager := g\<rparr>))"

definition job_check_personal_deadlines ::
  "transport \<Rightarrow> datetime \<Rightarrow> student_bot \<Rightarrow> event list \<times> student_bot" where
  "job_check_personal_deadlines send now app =
     (case check_personal_deadlines send now (user_manager_deadline app) of
        (ev, u) \<Rightarrow> (ev, app\<lparr>user_manager_deadline := u\<rparr>))"

text \<open>
  A trace is fresh for a ledger when it assigns each key at most once, assigns and sends
  only for keys the ledger did not hold, and the ledger afterwards is the old one
  extended by the assigned keys.
\<close>

definition fresh_trace :: "ledger \<Rightarrow> event list \<Rightarrow> ledger \<Rightarrow> bool" where
  "fresh_trace sent ev sent' =
     (dom sent' = dom sent \<union> set (mark_keys ev)
      \<and> (\<forall>k \<in> dom sent. sent' k = sent k)
      \<and> distinct (mark_keys ev)
      \<and> set (mark_keys ev) \<inter> dom sent = {}
      \<and> event_key ` set ev \<subseteq> set (mark_keys ev))"

text \<open>
  The order of dispatch and marking in a trace: every assignment of a key comes directly
  after the calls for that key, one call for every user of the registry in the shared
  scope, one call in the personal scope, whatever the outcomes of the calls.
\<close>

definition broadcast_then_mark :: "string list \<Rightarrow> transport \<Rightarrow> event list \<Rightarrow> bool" where
  "broadcast_then_mark us send ev =
     (\<forall>k ts. Mark k ts \<in> set ev \<longrightarrow>
        (\<exists>pre post msg.
           ev = pre @ map (\<lambda>uid. Send k uid msg (send uid msg)) us @ Mark k ts # post))"

definition send_then_mark :: "transport \<Rightarrow> event list \<Rightarrow> bool" where
  "send_then_mark send ev =
     (\<forall>k ts. Mark k ts \<in> set ev \<longrightarrow>
        (\<exists>pre post uid msg. ev = pre @ Send k uid msg (send uid msg) # Mark k ts # post))"

section \<open>The strict reading of the date format\<close>



section \<open>The date texts that the parser takes\<close>





section \<open>Example data\<close>

definition ex_now :: datetime where
  "ex_now = \<lparr>year = 2029, month = 12, day = 24, hour = 18, minute = 30, second = 5,
     microsecond = 250000\<rparr>"

definition ex_math :: deadline_item where
  "ex_math = \<lparr>subject = ''Math'', task = ''HW1'', deadline = ''02.01.2030'',
     created_at = ''2029-12-01 10:00:00''\<rparr>"

definition ex_physics :: deadline_item where
  "ex_physics = \<lparr>subject = ''Physics'', task = ''Lab2'', deadline = ''15.03.2030'',
     created_at = ''2029-12-02 11:30:00''\<rparr>"

definition ex_essay :: deadline_item where
  "ex_essay = \<lparr>subject = ''History'', task = ''Essay'', deadline = ''29.02.2028'',
     created_at = ''2027-12-03 09:00:00''\<rparr>"

definition ex_global :: global_deadline_manager where
  "ex_global = \<lparr>g_deadlines = [ex_math, ex_physics, ex_essay], g_sent_reminders = Map.empty\<rparr>"

definition ex_user :: user_deadline_manager where
  "ex_user = \<lparr>u_deadlines = [(''7'', [ex_essay]), (''42'', [ex_math, ex_physics, ex_essay])],
     u_sent_reminders = Map.empty\<rparr>"

text \<open>Times around the moment 24 hours before the second of January 2030, the registry,
  and two transports: one that delivers and one that fails at every call.\<close>

definition ex_t24 :: datetime where
  "ex_t24 = \<lparr>year = 2030, month = 1, day = 1, hour = 0, minute = 0, second = 0, microsecond = 0\<rparr>"

definition ex_t24_early :: datetime where
  "ex_t24_early = \<lparr>year = 2029, month = 12, day = 31, hour = 23, minute = 59, second = 59,
     microsecond = 0\<rparr>"

definition ex_t24_late :: datetime where
  "ex_t24_late = \<lparr>year = 2030, month = 1, day = 1, hour = 0, minute = 0, second = 1, microsecond = 0\<rparr>"

definition ex_t24_again :: datetime where
  "ex_t24_again = \<lparr>year = 2030, month = 1, day = 1, hour = 0, minute = 0, second = 30,
     microsecond = 0\<rparr>"

definition ex_registry :: "string list" where
  "ex_registry = [''7'', ''42'']"

definition ex_up :: transport where
  "ex_up uid msg = True"

definition ex_down :: transport where
  "ex_down uid msg = False"

definition ex_broken :: deadline_item where
  "ex_broken = \<lparr>subject = ''Chemistry'', task = ''Quiz'', deadline = ''2030-01-02'',
     created_at = ''2029-12-04 08:00:00''\<rparr>"

definition ex_math_msg :: "heading \<Rightarrow> message" where
  "ex_math_msg scope = \<lparr>msg_heading = scope, msg_subject = ''Math'', msg_task = ''HW1'',
     msg_deadline = ''02.01.2030'', msg_note = OneDay\<rparr>"

definition ex_due :: datetime where
  "ex_due = \<lparr>year = 2030, month = 1, day = 2, hour = 0, minute = 0, second = 0, microsecond = 0\<rparr>"

definition ex_board :: global_deadline_manager where
  "ex_board = \<lparr>g_deadlines = [ex_broken, ex_math], g_sent_reminders = Map.empty\<rparr>"

definition ex_desk :: user_deadline_manager where
  "ex_desk = \<lparr>u_deadlines = [(''42'', [ex_broken, ex_math])], u_sent_reminders = Map.empty\<rparr>"

definition ex_bot :: student_bot where
  "ex_bot = \<lparr>user_manager = ex_registry, global_manager = ex_board,
     user_manager_deadline = ex_desk\<rparr>"

section \<open>Properties\<close>

subsection \<open>Auxiliary facts\<close>

lemma str_nat_hours: "str_nat 24 = ''24''" "str_nat 72 = ''72''" "str_nat 120 = ''120''"
  by (simp_all add: str_nat.simps digit_chr_def)

lemma nat_index: "0 \<le> i \<and> i < int n \<Longrightarrow> nat i < n"
  by linarith

lemma list_pop_spec:
  "i < length xs \<Longrightarrow>
     length (list_pop xs i) = length xs - 1
     \<and> (\<forall>j. j < i \<longrightarrow> list_pop xs i ! j = xs ! j)
     \<and> (\<forall>j. i \<le> j \<and> j < length xs - 1 \<longrightarrow> list_pop xs i ! j = xs ! Suc j)"
  by (simp add: list_pop_def nth_append min_def)

lemma dict_get_update:
  "dict_get (AList.update k v d) k' = (if k' = k then v else dict_get d k')"
  by (simp add: dict_get_def update_conv')

lemma dict_get_nonempty_key: "dict_get d k \<noteq> [] \<Longrightarrow> k \<in> fst ` set d"
  by (auto simp: dict_get_def split: option.splits dest: map_of_SomeD intro: rev_image_eqI)















subsection \<open>Removing a deadline by index\<close>

text \<open>
  Claim C4. For a sequence of length \<open>n\<close> and an index \<open>i\<close> with \<open>0 \<le> i < n\<close>,
  \<^verbatim>\<open>remove_deadline\<close> (shared and personal) returns success, the sequence loses exactly
  the element at position \<open>i\<close>, the elements before \<open>i\<close> keep their positions and the
  later ones move down by one; other users' sequences, the order of the users and the
  ledger are untouched. For every index outside \<open>[0, n)\<close>, negative ones included, it
  returns failure and the manager is unchanged.
\<close>

theorem remove_deadline_by_index:
  "(0 \<le> i \<and> i < int (length (g_deadlines m)) \<longrightarrow>
      fst (global_remove_deadline i m) = True
      \<and> length (g_deadlines (snd (global_remove_deadline i m))) = length (g_deadlines m) - 1
      \<and> (\<forall>j. j < nat i \<longrightarrow>
            g_deadlines (snd (global_remove_deadline i m)) ! j = g_deadlines m ! j)
      \<and> (\<forall>j. nat i \<le> j \<and> j < length (g_deadlines m) - 1 \<longrightarrow>
            g_deadlines (snd (global_remove_deadline i m)) ! j = g_deadlines m ! Suc j)
      \<and> g_sent_reminders (snd (global_remove_deadline i m)) = g_sent_reminders m)
   \<and> (\<not> (0 \<le> i' \<and> i' < int (length (g_deadlines m))) \<longrightarrow>
        global_remove_deadline i' m = (False, m))
   \<and> (0 \<le> i \<and> i < int (length (get_user_deadlines um uid)) \<longrightarrow>
      fst (user_remove_deadline uid i um) = True
      \<and> length (get_user_deadlines (snd (user_remove_deadline uid i um)) uid)
           = length (get_user_deadlines um uid) - 1
      \<and> (\<forall>j. j < nat i \<longrightarrow>
            get_user_deadlines (snd (user_remove_deadline uid i um)) uid ! j
              = get_user_deadlines um uid ! j)
      \<and> (\<forall>j. nat i \<le> j \<and> j < length (get_user_deadlines um uid) - 1 \<longrightarrow>
            get_user_deadlines (snd (user_remove_deadline uid i um)) uid ! j
              = get_user_deadlines um uid ! Suc j)
      \<and> (\<forall>u. u \<noteq> uid \<longrightarrow>
            get_user_deadlines (snd (user_remove_deadline uid i um)) u = get_user_deadlines um u)
      \<and> map fst (u_deadlines (snd (user_remove_deadline uid i um))) = map fst (u_deadlines um)
      \<and> u_sent_reminders (snd (user_remove_deadline uid i um)) = u_sent_reminders um)
   \<and> (\<not> (0 \<le> i' \<and> i' < int (length (get_user_deadlines um uid))) \<longrightarrow>
        user_remove_deadline uid i' um = (False, um))"
proof -
  have g_ok: "0 \<le> i \<and> i < int (length (g_deadlines m)) \<Longrightarrow>
      fst (global_remove_deadline i m) = True
      \<and> length (g_deadlines (snd (global_remove_deadline i m))) = length (g_deadlines m) - 1
      \<and> (\<forall>j. j < nat i \<longrightarrow>
            g_deadlines (snd (global_remove_deadline i m)) ! j = g_deadlines m ! j)
      \<and> (\<forall>j. nat i \<le> j \<and> j < length (g_deadlines m) - 1 \<longrightarrow>
            g_deadlines (snd (global_remove_deadline i m)) ! j = g_deadlines m ! Suc j)
      \<and> g_sent_reminders (snd (global_remove_deadline i m)) = g_sent_reminders m"
    using list_pop_spec [OF nat_index, of i "g_deadlines m"]
    by (simp add: global_remove_deadline_def)
  have g_bad: "\<not> (0 \<le> i' \<and> i' < int (length (g_deadlines m))) \<Longrightarrow>
        global_remove_deadline i' m = (False, m)"
    by (simp add: global_remove_deadline_def)
  have u_bad: "\<not> (0 \<le> i' \<and> i' < int (length (get_user_deadlines um uid))) \<Longrightarrow>
        user_remove_deadline uid i' um = (False, um)"
    by (simp add: user_remove_deadline_def get_user_deadlines_def Let_def)
  have u_ok: "fst (user_remove_deadline uid i um) = True
      \<and> length (get_user_deadlines (snd (user_remove_deadline uid i um)) uid)
           = length (get_user_deadlines um uid) - 1
      \<and> (\<forall>j. j < nat i \<longrightarrow>
            get_user_deadlines (snd (user_remove_deadline uid i um)) uid ! j
              = get_user_deadlines um uid ! j)
      \<and> (\<forall>j. nat i \<le> j \<and> j < length (get_user_deadlines um uid) - 1 \<longrightarrow>
            get_user_deadlines (snd (user_remove_deadline uid i um)) uid ! j
              = get_user_deadlines um uid ! Suc j)
      \<and> (\<forall>u. u \<noteq> uid \<longrightarrow>
            get_user_deadlines (snd (user_remove_deadline uid i um)) u = get_user_deadlines um u)
      \<and> map fst (u_deadlines (snd (user_remove_deadline uid i um))) = map fst (u_deadlines um)
      \<and> u_sent_reminders (snd (user_remove_deadline uid i um)) = u_sent_reminders um"
    if r: "0 \<le> i \<and> i < int (length (get_user_deadlines um uid))"
  proof -
    from r have "dict_get (u_deadlines um) uid \<noteq> []"
      by (auto simp: get_user_deadlines_def)
    then have "uid \<in> fst ` set (u_deadlines um)"
      by (rule dict_get_nonempty_key)
    then have keys: "map fst (AList.update uid v (u_deadlines um)) = map fst (u_deadlines um)" for v
      by (simp add: update_keys)
    from r show ?thesis
      using list_pop_spec [OF nat_index, of i "dict_get (u_deadlines um) uid"]
      by (simp add: user_remove_deadline_def get_user_deadlines_def Let_def dict_get_update keys)
  qed
  from g_ok g_bad u_ok u_bad show ?thesis by blast
qed

text \<open>Position 1 of three is removed; positions 5 and -1 are refused (the global list
  and the list of user 42).\<close>

theorem remove_deadline_by_index_witness:
  "g_deadlines (snd (global_remove_deadline 1 ex_global)) = [ex_math, ex_essay]
   \<and> fst (global_remove_deadline 1 ex_global) = True
   \<and> global_remove_deadline 5 ex_global = (False, ex_global)
   \<and> global_remove_deadline (- 1) ex_global = (False, ex_global)
   \<and> get_user_deadlines (snd (user_remove_deadline ''42'' 1 ex_user)) ''42'' = [ex_math, ex_essay]
   \<and> get_user_deadlines (snd (user_remove_deadline ''42'' 1 ex_user)) ''7'' = [ex_essay]
   \<and> fst (user_remove_deadline ''42'' 1 ex_user) = True
   \<and> user_remove_deadline ''42'' 5 ex_user = (False, ex_user)
   \<and> user_remove_deadline ''42'' (- 1) ex_user = (False, ex_user)"
proof -
  have len: "length (g_deadlines ex_global) = 3" "length (get_user_deadlines ex_user ''42'') = 3"
    by (simp_all add: ex_global_def ex_user_def get_user_deadlines_def dict_get_def)
  have in_range: "0 \<le> (1::int) \<and> (1::int) < int (length (g_deadlines ex_global))"
    "0 \<le> (1::int) \<and> (1::int) < int (length (get_user_deadlines ex_user ''42''))"
    by (simp_all add: len)
  have out5: "\<not> (0 \<le> (5::int) \<and> (5::int) < int (length (g_deadlines ex_global)))"
    "\<not> (0 \<le> (5::int) \<and> (5::int) < int (length (get_user_deadlines ex_user ''42'')))"
    by (simp_all add: len)
  have outm: "\<not> (0 \<le> (- 1::int) \<and> (- 1::int) < int (length (g_deadlines ex_global)))"
    "\<not> (0 \<le> (- 1::int) \<and> (- 1::int) < int (length (get_user_deadlines ex_user ''42'')))"
    by simp_all
  note a = remove_deadline_by_index [of 1 ex_global 5 ex_user "''42''"]
  note b = remove_deadline_by_index [of 1 ex_global "- 1" ex_user "''42''"]
  have lists: "g_deadlines (snd (global_remove_deadline 1 ex_global)) = [ex_math, ex_essay]"
    "get_user_deadlines (snd (user_remove_deadline ''42'' 1 ex_user)) ''42'' = [ex_math, ex_essay]"
    "get_user_deadlines (snd (user_remove_deadline ''42'' 1 ex_user)) ''7'' = [ex_essay]"
    by (simp_all add: global_remove_deadline_def user_remove_deadline_def ex_global_def
        ex_user_def get_user_deadlines_def dict_get_def list_pop_def)
  from a b in_range out5 outm lists show ?thesis by blast
qed



lemmas strptime_eval = strptime_def chr_in_def is_digit_def int_of_group_def decimal_def
  digit_val_def make_date_def check_date_fields_def days_in_month_def DAYS_IN_MONTH_def
  is_leap_def

lemma strptime_examples:
  "strptime ''1.1.2030'' = Some \<lparr>year = 2030, month = 1, day = 1, hour = 0, minute = 0,
     second = 0, microsecond = 0\<rparr>"
  "strptime ''31.02.2030'' = None"
  "strptime ''2030-01-02'' = None"
  "strptime ''02.01.2030'' = Some \<lparr>year = 2030, month = 1, day = 2, hour = 0, minute = 0,
     second = 0, microsecond = 0\<rparr>"
  by (simp_all add: strptime_eval)

subsection \<open>Failing operations of the personal store\<close>

text \<open>
  Claim C10. A failing operation of \<^verbatim>\<open>UserDeadlineManager\<close> leaves the manager, and so
  the users of its dict, as they were: \<^verbatim>\<open>add_deadline\<close> with a date that does not
  parse creates no entry for a user who has none, and \<^verbatim>\<open>remove_deadline\<close> for a user
  with no entry returns failure and creates none.
\<close>


theorem failed_personal_operation_keeps_users:
  "(fst (user_add_deadline now uid subj tsk s um) = False \<longrightarrow>
      snd (user_add_deadline now uid subj tsk s um) = um)
   \<and> (fst (user_remove_deadline uid i um) = False \<longrightarrow>
      snd (user_remove_deadline uid i um) = um)
   \<and> (strptime s = None \<and> uid \<notin> fst ` set (u_deadlines um) \<longrightarrow>
        fst (user_add_deadline now uid subj tsk s um) = False
        \<and> uid \<notin> fst ` set (u_deadlines (snd (user_add_deadline now uid subj tsk s um))))
   \<and> (uid \<notin> fst ` set (u_deadlines um) \<longrightarrow>
        fst (user_remove_deadline uid i um) = False
        \<and> uid \<notin> fst ` set (u_deadlines (snd (user_remove_deadline uid i um))))"
proof -
  have a: "fst (user_add_deadline now uid subj tsk s um) = False \<Longrightarrow>
      snd (user_add_deadline now uid subj tsk s um) = um"
    by (simp add: user_add_deadline_def Let_def split: option.splits)
  have b: "snd (user_remove_deadline uid i um) = um"
    if h: "fst (user_remove_deadline uid i um) = False"
  proof (cases "0 \<le> i \<and> i < int (length (dict_get (u_deadlines um) uid))")
    case True
    with h show ?thesis by (simp add: user_remove_deadline_def Let_def)
  next
    case False
    then show ?thesis by (auto simp: user_remove_deadline_def Let_def)
  qed
  have c: "strptime s = None \<Longrightarrow> user_add_deadline now uid subj tsk s um = (False, um)"
    by (simp add: user_add_deadline_def)
  have d: "user_remove_deadline uid i um = (False, um)" if "uid \<notin> fst ` set (u_deadlines um)"
  proof -
    from that have "map_of (u_deadlines um) uid = None"
      by (simp add: map_of_eq_None_iff)
    then show ?thesis
      by (simp add: user_remove_deadline_def dict_get_def)
  qed
  from a b c d show ?thesis by simp
qed

text \<open>User 99 has no entry; a date that does not exist and a removal leave it so.\<close>


theorem failed_personal_operation_keeps_users_witness:
  "fst (user_add_deadline ex_now ''99'' ''Math'' ''HW2'' ''31.02.2030'' ex_user) = False
   \<and> fst (user_remove_deadline ''99'' 0 ex_user) = False
   \<and> ''99'' \<notin> fst ` set (u_deadlines ex_user)
   \<and> snd (user_add_deadline ex_now ''99'' ''Math'' ''HW2'' ''31.02.2030'' ex_user) = ex_user
   \<and> snd (user_remove_deadline ''99'' 0 ex_user) = ex_user
   \<and> ''99'' \<notin> fst ` set (u_deadlines (snd (user_add_deadline ex_now ''99'' ''Math'' ''HW2'' ''31.02.2030'' ex_user)))
   \<and> ''99'' \<notin> fst ` set (u_deadlines (snd (user_remove_deadline ''99'' 0 ex_user)))"
proof -
  have k: "''99'' \<notin> fst ` set (u_deadlines ex_user)"
    by (simp add: ex_user_def)
  note t = failed_personal_operation_keeps_users [of ex_now "''99''" "''Math''" "''HW2''"
      "''31.02.2030''" ex_user 0]
  from t k strptime_examples(2) show ?thesis by simp
qed

subsection \<open>Facts about traces\<close>

lemma mark_keys_append: "mark_keys (a @ b) = mark_keys a @ mark_keys b"
  by (induction a rule: mark_keys.induct) simp_all

lemma for_each_append:
  "for_each body (xs @ ys) sent =
     (case for_each body xs sent of (ev, sent1) \<Rightarrow>
        (case for_each body ys sent1 of (ev', sent2) \<Rightarrow> (ev @ ev', sent2)))"
  by (induction xs arbitrary: sent) (simp_all split: prod.splits)

lemma fresh_trace_refl: "fresh_trace sent [] sent"
  by (simp add: fresh_trace_def)

lemma fresh_trace_dom: "fresh_trace s ev s' \<Longrightarrow> dom s' = dom s \<union> set (mark_keys ev)"
  by (simp add: fresh_trace_def)

lemma fresh_trace_keeps: "fresh_trace s ev s' \<Longrightarrow> k \<in> dom s \<Longrightarrow> s' k = s k"
  by (simp add: fresh_trace_def)

lemma fresh_trace_distinct: "fresh_trace s ev s' \<Longrightarrow> distinct (mark_keys ev)"
  by (simp add: fresh_trace_def)

lemma fresh_trace_new: "fresh_trace s ev s' \<Longrightarrow> set (mark_keys ev) \<inter> dom s = {}"
  by (simp add: fresh_trace_def)

lemma fresh_trace_keys: "fresh_trace s ev s' \<Longrightarrow> event_key ` set ev \<subseteq> set (mark_keys ev)"
  by (simp add: fresh_trace_def)

lemma fresh_trace_trans:
  assumes a: "fresh_trace s0 e1 s1" and b: "fresh_trace s1 e2 s2"
  shows "fresh_trace s0 (e1 @ e2) s2"
proof -
  note d1 = fresh_trace_dom [OF a] and d2 = fresh_trace_dom [OF b]
  note n1 = fresh_trace_distinct [OF a] and n2 = fresh_trace_distinct [OF b]
  note f1 = fresh_trace_new [OF a] and f2 = fresh_trace_new [OF b]
  note k1 = fresh_trace_keys [OF a] and k2 = fresh_trace_keys [OF b]
  have 1: "dom s2 = dom s0 \<union> set (mark_keys (e1 @ e2))"
    unfolding d2 d1 mark_keys_append set_append by blast
  have 2: "\<forall>k \<in> dom s0. s2 k = s0 k"
  proof
    fix k assume k: "k \<in> dom s0"
    then have "k \<in> dom s1" unfolding d1 by blast
    then have "s2 k = s1 k" by (rule fresh_trace_keeps [OF b])
    also have "s1 k = s0 k" using k by (rule fresh_trace_keeps [OF a])
    finally show "s2 k = s0 k" .
  qed
  have "set (mark_keys e1) \<inter> set (mark_keys e2) = {}"
    using f2 unfolding d1 by blast
  with n1 n2 have 3: "distinct (mark_keys (e1 @ e2))"
    unfolding mark_keys_append distinct_append by blast
  have 4: "set (mark_keys (e1 @ e2)) \<inter> dom s0 = {}"
    using f1 f2 unfolding d1 mark_keys_append set_append by blast
  have 5: "event_key ` set (e1 @ e2) \<subseteq> set (mark_keys (e1 @ e2))"
    using k1 k2 unfolding mark_keys_append set_append by blast
  from 1 2 3 4 5 show ?thesis
    unfolding fresh_trace_def by (intro conjI)
qed

lemma for_each_fresh:
  assumes "\<And>x s. fresh_trace s (fst (body x s)) (snd (body x s))"
  shows "fresh_trace sent (fst (for_each body xs sent)) (snd (for_each body xs sent))"
proof (induction xs arbitrary: sent)
  case Nil
  show ?case by (simp add: fresh_trace_refl)
next
  case (Cons x xs)
  have "fresh_trace sent (fst (body x sent) @ fst (for_each body xs (snd (body x sent))))
          (snd (for_each body xs (snd (body x sent))))"
    using assms [of sent x] Cons.IH [of "snd (body x sent)"] by (rule fresh_trace_trans)
  then show ?case
    by (simp add: split_beta)
qed

lemma mark_keys_sends: "mark_keys (map (\<lambda>uid. Send k uid (msg uid) (ok uid)) us) = []"
  by (induction us) simp_all

lemma remind_global_fresh:
  "fresh_trace s (fst (remind_global us send now dl hl h s)) (snd (remind_global us send now dl hl h s))"
  by (auto simp: remind_global_def fresh_trace_def Let_def mark_keys_append mark_keys_sends)

lemma remind_personal_fresh:
  "fresh_trace s (fst (remind_personal send now uid dl hl h s)) (snd (remind_personal send now uid dl hl h s))"
  by (auto simp: remind_personal_def fresh_trace_def Let_def)

lemma scan_global_fresh:
  "fresh_trace s (fst (scan_global us send now dl s)) (snd (scan_global us send now dl s))"
  by (simp add: scan_global_def fresh_trace_refl for_each_fresh remind_global_fresh
      split: option.splits)

lemma scan_personal_fresh:
  "fresh_trace s (fst (scan_personal send now uid dl s)) (snd (scan_personal send now uid dl s))"
  by (simp add: scan_personal_def fresh_trace_refl for_each_fresh remind_personal_fresh
      split: option.splits)

lemma scan_user_fresh:
  "fresh_trace s (fst (scan_user send now e s)) (snd (scan_user send now e s))"
  by (cases e) (simp add: scan_user_def for_each_fresh scan_personal_fresh)

lemma check_deadlines_fresh:
  "fresh_trace (g_sent_reminders m) (fst (check_deadlines um send now m))
     (g_sent_reminders (snd (check_deadlines um send now m)))"
proof (cases um)
  case None
  then show ?thesis by (simp add: check_deadlines_def fresh_trace_refl)
next
  case (Some us)
  have "fresh_trace (g_sent_reminders m)
     (fst (for_each (scan_global us send now) (g_deadlines m) (g_sent_reminders m)))
     (snd (for_each (scan_global us send now) (g_deadlines m) (g_sent_reminders m)))"
    by (rule for_each_fresh) (rule scan_global_fresh)
  then show ?thesis
    by (simp add: check_deadlines_def Some split_beta)
qed

lemma check_personal_deadlines_fresh:
  "fresh_trace (u_sent_reminders m) (fst (check_personal_deadlines send now m))
     (u_sent_reminders (snd (check_personal_deadlines send now m)))"
proof -
  have "fresh_trace (u_sent_reminders m)
     (fst (for_each (scan_user send now) (u_deadlines m) (u_sent_reminders m)))
     (snd (for_each (scan_user send now) (u_deadlines m) (u_sent_reminders m)))"
    by (rule for_each_fresh) (rule scan_user_fresh)
  then show ?thesis
    by (simp add: check_personal_deadlines_def split_beta)
qed

lemma global_step_fresh:
  "fresh_trace (g_sent_reminders m) (fst (global_step x m)) (g_sent_reminders (snd (global_step x m)))"
  by (cases x)
    (simp_all add: check_deadlines_fresh fresh_trace_refl global_add_deadline_def
      global_remove_deadline_def split: option.splits)

lemma user_step_fresh:
  "fresh_trace (u_sent_reminders m) (fst (user_step x m)) (u_sent_reminders (snd (user_step x m)))"
  by (cases x)
    (simp_all add: check_personal_deadlines_fresh fresh_trace_refl user_add_deadline_def
      user_remove_deadline_def Let_def split: option.splits)

lemma global_run_fresh:
  "fresh_trace (g_sent_reminders m) (fst (global_run xs m)) (g_sent_reminders (snd (global_run xs m)))"
proof (induction xs arbitrary: m)
  case Nil
  show ?case by (simp add: fresh_trace_refl)
next
  case (Cons x xs)
  have "fresh_trace (g_sent_reminders m)
          (fst (global_step x m) @ fst (global_run xs (snd (global_step x m))))
          (g_sent_reminders (snd (global_run xs (snd (global_step x m)))))"
    using global_step_fresh [of m x] Cons.IH [of "snd (global_step x m)"]
    by (rule fresh_trace_trans)
  then show ?case by (simp add: split_beta)
qed

lemma user_run_fresh:
  "fresh_trace (u_sent_reminders m) (fst (user_run xs m)) (u_sent_reminders (snd (user_run xs m)))"
proof (induction xs arbitrary: m)
  case Nil
  show ?case by (simp add: fresh_trace_refl)
next
  case (Cons x xs)
  have "fresh_trace (u_sent_reminders m)
          (fst (user_step x m) @ fst (user_run xs (snd (user_step x m))))
          (u_sent_reminders (snd (user_run xs (snd (user_step x m)))))"
    using user_step_fresh [of m x] Cons.IH [of "snd (user_step x m)"]
    by (rule fresh_trace_trans)
  then show ?case by (simp add: split_beta)
qed

lemma global_run_append:
  "global_run (xs @ ys) m =
     (fst (global_run xs m) @ fst (global_run ys (snd (global_run xs m))),
      snd (global_run ys (snd (global_run xs m))))"
  by (induction xs arbitrary: m) (simp_all add: split_beta)

lemma user_run_append:
  "user_run (xs @ ys) m =
     (fst (user_run xs m) @ fst (user_run ys (snd (user_run xs m))),
      snd (user_run ys (snd (user_run xs m))))"
  by (induction xs arbitrary: m) (simp_all add: split_beta)

lemma distinct_count_le_1: "distinct xs \<Longrightarrow> count_list xs k \<le> 1"
  by (induction xs) auto

lemma fresh_trace_once:
  assumes "fresh_trace s ev s'"
  shows "count_list (mark_keys ev) k \<le> 1"
    and "k \<in> dom s \<Longrightarrow> k \<notin> event_key ` set ev"
    and "k \<in> dom s \<Longrightarrow> s' k = s k"
    and "dom s \<subseteq> dom s'"
proof -
  from assms have "distinct (mark_keys ev)" by (simp add: fresh_trace_def)
  then show "count_list (mark_keys ev) k \<le> 1"
    by (rule distinct_count_le_1)
  show "k \<in> dom s \<Longrightarrow> k \<notin> event_key ` set ev"
    using assms unfolding fresh_trace_def by blast
  show "k \<in> dom s \<Longrightarrow> s' k = s k"
    using assms unfolding fresh_trace_def by blast
  show "dom s \<subseteq> dom s'"
    using assms unfolding fresh_trace_def by blast
qed

lemma for_each_settles:
  assumes grow: "\<And>x s. dom s \<subseteq> dom (snd (f x s))"
    and quiet: "\<And>x s t. dom (snd (f x s)) \<subseteq> dom t \<Longrightarrow> g x t = ([], t)"
  shows "dom (snd (for_each f xs s)) \<subseteq> dom t \<Longrightarrow> for_each g xs t = ([], t)"
proof (induction xs arbitrary: s)
  case Nil
  show ?case by simp
next
  case (Cons x xs)
  let ?s1 = "snd (f x s)"
  have mono: "dom u \<subseteq> dom (snd (for_each f ys u))" for ys u
  proof (induction ys arbitrary: u)
    case Nil
    show ?case by simp
  next
    case (Cons y ys)
    have "dom u \<subseteq> dom (snd (f y u))" by (rule grow)
    also have "\<dots> \<subseteq> dom (snd (for_each f ys (snd (f y u))))" by (rule Cons.IH)
    finally show ?case by (simp add: split_beta)
  qed
  from Cons.prems have all: "dom (snd (for_each f xs ?s1)) \<subseteq> dom t"
    by (simp add: split_beta)
  have "dom ?s1 \<subseteq> dom (snd (for_each f xs ?s1))" by (rule mono)
  from this all have "dom ?s1 \<subseteq> dom t" by (rule order_trans)
  then have 1: "g x t = ([], t)" by (rule quiet)
  from all have 2: "for_each g xs t = ([], t)" by (rule Cons.IH)
  from 1 2 show ?case by simp
qed

subsection \<open>Facts about the window test\<close>

lemma in_window_iff: "in_window h hl \<longleftrightarrow> real h - 1 / 60 < hl \<and> hl \<le> real h"
  by (auto simp: in_window_def CHECK_INTERVAL_def)

lemmas hours_left_eval = hours_left_def total_seconds_def datetime_sub_def toordinal_def
  ymd2ord_def days_before_year_def days_before_month_def DAYS_IN_MONTH_def is_leap_def
  day_seconds_def

lemma strptime_ex_dates:
  "strptime (deadline ex_math) = Some \<lparr>year = 2030, month = 1, day = 2, hour = 0, minute = 0,
     second = 0, microsecond = 0\<rparr>"
  "strptime (deadline ex_physics) = Some \<lparr>year = 2030, month = 3, day = 15, hour = 0, minute = 0,
     second = 0, microsecond = 0\<rparr>"
  "strptime (deadline ex_essay) = Some \<lparr>year = 2028, month = 2, day = 29, hour = 0, minute = 0,
     second = 0, microsecond = 0\<rparr>"
  "strptime (deadline ex_broken) = None"
  by (simp_all add: ex_math_def ex_physics_def ex_essay_def ex_broken_def strptime_eval)

lemma hours_left_ex_math:
  "hours_left \<lparr>year = 2030, month = 1, day = 2, hour = 0, minute = 0,
     second = 0, microsecond = 0\<rparr> ex_t24 = 24"
  "hours_left \<lparr>year = 2030, month = 1, day = 2, hour = 0, minute = 0,
     second = 0, microsecond = 0\<rparr> ex_t24_early = 86401 / 3600"
  "hours_left \<lparr>year = 2030, month = 1, day = 2, hour = 0, minute = 0,
     second = 0, microsecond = 0\<rparr> ex_t24_late = 86399 / 3600"
  "hours_left \<lparr>year = 2030, month = 1, day = 2, hour = 0, minute = 0,
     second = 0, microsecond = 0\<rparr> ex_t24_again = 86370 / 3600"
  by (simp_all add: hours_left_eval ex_t24_def ex_t24_early_def ex_t24_late_def ex_t24_again_def)

lemma strftime_ex:
  "strftime ex_t24 = ''2030-01-01 00:00:00''"
  "strftime ex_t24_again = ''2030-01-01 00:00:30''"
  by (simp_all add: strftime_def ex_t24_def ex_t24_again_def zfill_def str_nat.simps digit_chr_def)


lemma in_window_unique:
  "in_window h hl \<Longrightarrow> in_window h' hl \<Longrightarrow> h \<in> set REMINDER_HOURS \<Longrightarrow> h' \<in> set REMINDER_HOURS
     \<Longrightarrow> h = h'"
  by (auto simp: in_window_iff REMINDER_HOURS_def)

lemma remind_global_out: "\<not> in_window h hl \<Longrightarrow> remind_global us send now dl hl h s = ([], s)"
  by (simp add: remind_global_def)

lemma remind_personal_out: "\<not> in_window h hl \<Longrightarrow> remind_personal send now uid dl hl h s = ([], s)"
  by (simp add: remind_personal_def)

lemma for_each_hours:
  assumes out: "\<And>h s. \<not> in_window h hl \<Longrightarrow> body h s = ([], s)"
  shows "for_each body REMINDER_HOURS s =
     (if in_window 24 hl then body 24 s else if in_window 72 hl then body 72 s
      else if in_window 120 hl then body 120 s else ([], s))"
proof -
  have u: "in_window a hl \<Longrightarrow> a \<in> set REMINDER_HOURS \<Longrightarrow> b \<in> set REMINDER_HOURS \<Longrightarrow> a \<noteq> b
      \<Longrightarrow> body b t = ([], t)" for a b t
    using in_window_unique [of a hl b] out [of b t] by blast
  have m: "24 \<in> set REMINDER_HOURS" "72 \<in> set REMINDER_HOURS" "120 \<in> set REMINDER_HOURS"
    by (simp_all add: REMINDER_HOURS_def)
  have e: "for_each body REMINDER_HOURS s =
     (fst (body 24 s) @ fst (body 72 (snd (body 24 s)))
         @ fst (body 120 (snd (body 72 (snd (body 24 s))))),
      snd (body 120 (snd (body 72 (snd (body 24 s))))))"
    by (simp add: REMINDER_HOURS_def split_beta)
  consider (a) "in_window 24 hl" | (b) "\<not> in_window 24 hl" "in_window 72 hl"
    | (c) "\<not> in_window 24 hl" "\<not> in_window 72 hl" "in_window 120 hl"
    | (d) "\<not> in_window 24 hl" "\<not> in_window 72 hl" "\<not> in_window 120 hl"
    by blast
  then show ?thesis
  proof cases
    case a
    have "body 72 t = ([], t)" "body 120 t = ([], t)" for t
      using u [OF a m(1) m(2)] u [OF a m(1) m(3)] by simp_all
    with a show ?thesis by (simp add: e)
  next
    case b
    have "body 24 t = ([], t)" "body 120 t = ([], t)" for t
      using out [OF b(1)] u [OF b(2) m(2) m(3)] by simp_all
    with b show ?thesis by (simp add: e)
  next
    case c
    have "body 24 t = ([], t)" "body 72 t = ([], t)" for t
      using out [OF c(1)] out [OF c(2)] by simp_all
    with c show ?thesis by (simp add: e)
  next
    case d
    have "body 24 t = ([], t)" "body 72 t = ([], t)" "body 120 t = ([], t)" for t
      using out [OF d(1)] out [OF d(2)] out [OF d(3)] by simp_all
    with d show ?thesis by (simp add: e)
  qed
qed

lemma scan_hours_global:
  "for_each (remind_global us send now dl hl) REMINDER_HOURS s =
     (if in_window 24 hl then remind_global us send now dl hl 24 s
      else if in_window 72 hl then remind_global us send now dl hl 72 s
      else if in_window 120 hl then remind_global us send now dl hl 120 s else ([], s))"
  by (rule for_each_hours) (rule remind_global_out)

lemma scan_hours_personal:
  "for_each (remind_personal send now uid dl hl) REMINDER_HOURS s =
     (if in_window 24 hl then remind_personal send now uid dl hl 24 s
      else if in_window 72 hl then remind_personal send now uid dl hl 72 s
      else if in_window 120 hl then remind_personal send now uid dl hl 120 s else ([], s))"
  by (rule for_each_hours) (rule remind_personal_out)

lemma filter_sends: "filter is_send (map (\<lambda>uid. Send k uid (msg uid) (ok uid)) us)
    = map (\<lambda>uid. Send k uid (msg uid) (ok uid)) us"
  by (induction us) simp_all

lemma remind_global_size:
  "length (mark_keys (fst (remind_global us send now dl hl h s))) \<le> 1
   \<and> length (filter is_send (fst (remind_global us send now dl hl h s))) \<le> length us"
  by (simp add: remind_global_def Let_def mark_keys_append mark_keys_sends filter_sends)

lemma remind_personal_size:
  "length (mark_keys (fst (remind_personal send now uid dl hl h s))) \<le> 1
   \<and> length (filter is_send (fst (remind_personal send now uid dl hl h s))) \<le> 1"
  by (simp add: remind_personal_def Let_def)

lemma scan_global_size:
  "length (mark_keys (fst (scan_global us send now dl s))) \<le> 1
   \<and> length (filter is_send (fst (scan_global us send now dl s))) \<le> length us"
  using remind_global_size
  by (simp add: scan_global_def scan_hours_global split: option.splits)

lemma scan_personal_size:
  "length (mark_keys (fst (scan_personal send now uid dl s))) \<le> 1
   \<and> length (filter is_send (fst (scan_personal send now uid dl s))) \<le> 1"
  using remind_personal_size
  by (simp add: scan_personal_def scan_hours_personal split: option.splits)


subsection \<open>One threshold at a time\<close>

text \<open>
  Claim C9. The window test is \<^verbatim>\<open>h >= hours_left > h - 60/3600\<close>, and for every value
  of \<open>hours_left\<close> at most one of the thresholds 24, 72 and 120 passes it. So the scan
  of one deadline in one check assigns at most one ledger key and sends at most one
  message to each recipient: at most one call per registered user in the shared scope,
  at most one call in the personal scope.
\<close>

theorem one_threshold_per_deadline_and_tick:
  "in_window h hl = (real h \<ge> hl \<and> hl > real h - 60 / 3600)
   \<and> length (filter (\<lambda>h. in_window h hl) REMINDER_HOURS) \<le> 1
   \<and> length (mark_keys (fst (scan_global us send now dl s))) \<le> 1
   \<and> length (filter is_send (fst (scan_global us send now dl s))) \<le> length us
   \<and> length (mark_keys (fst (scan_personal send now uid dl s))) \<le> 1
   \<and> length (filter is_send (fst (scan_personal send now uid dl s))) \<le> 1"
proof -
  have a: "in_window h hl = (real h \<ge> hl \<and> hl > real h - 60 / 3600)"
    by (simp add: in_window_def CHECK_INTERVAL_def)
  have b: "length (filter (\<lambda>h. in_window h hl) REMINDER_HOURS) \<le> 1"
    by (simp add: REMINDER_HOURS_def in_window_iff)
  from a b scan_global_size [of us send now dl s] scan_personal_size [of send now uid dl s]
  show ?thesis by blast
qed

subsection \<open>Facts about what one deadline triggers\<close>




lemma remind_global_marks:
  "set (mark_keys (fst (remind_global us send now dl hl a s)))
     = (if in_window a hl \<and> s (reminder_key dl a) = None then {reminder_key dl a} else {})"
  by (simp add: remind_global_def Let_def mark_keys_append mark_keys_sends)

lemma remind_personal_marks:
  "set (mark_keys (fst (remind_personal send now uid dl hl a s)))
     = (if in_window a hl \<and> s (r_key uid dl a) = None then {r_key uid dl a} else {})"
  by (simp add: remind_personal_def Let_def)





subsection \<open>The example checks, evaluated\<close>

lemma in_window_ex:
  "in_window 24 24" "\<not> in_window 72 24" "\<not> in_window 120 24"
  "in_window 24 (86370 / 3600)"
  by (simp_all add: in_window_iff)

lemma strptime_math_due:
  "strptime (deadline ex_math) = Some ex_due" "strptime ''02.01.2030'' = Some ex_due"
  unfolding ex_due_def by (rule strptime_ex_dates, rule strptime_examples)

lemma hours_left_due:
  "hours_left ex_due ex_t24 = 24" "hours_left ex_due ex_t24_again = 86370 / 3600"
  unfolding ex_due_def by (rule hours_left_ex_math)+

lemma ex_math_fields:
  "subject ex_math = ''Math''" "task ex_math = ''HW1''" "deadline ex_math = ''02.01.2030''"
  by (simp_all add: ex_math_def)

lemma scan_global_ex_math:
  "s ''Math_02.01.2030_24'' = None \<Longrightarrow>
   scan_global us send ex_t24 ex_math s =
     (map (\<lambda>uid. Send ''Math_02.01.2030_24'' uid (ex_math_msg GlobalDeadline)
              (send uid (ex_math_msg GlobalDeadline))) us
        @ [Mark ''Math_02.01.2030_24'' ''2030-01-01 00:00:00''],
      s(''Math_02.01.2030_24'' \<mapsto> ''2030-01-01 00:00:00''))"
  by (simp add: scan_global_def strptime_math_due hours_left_due scan_hours_global
      in_window_ex remind_global_def reminder_key_def str_nat_hours make_msg_def note_for_def
      ex_math_msg_def strftime_ex ex_math_fields Let_def)

lemma scan_personal_ex_math:
  "s ''42_Math_02.01.2030_24'' = None \<Longrightarrow>
   scan_personal send ex_t24 ''42'' ex_math s =
     ([Send ''42_Math_02.01.2030_24'' ''42'' (ex_math_msg PersonalDeadline)
              (send ''42'' (ex_math_msg PersonalDeadline)),
       Mark ''42_Math_02.01.2030_24'' ''2030-01-01 00:00:00''],
      s(''42_Math_02.01.2030_24'' \<mapsto> ''2030-01-01 00:00:00''))"
  by (simp add: scan_personal_def strptime_math_due hours_left_due scan_hours_personal
      in_window_ex remind_personal_def r_key_def str_nat_hours make_msg_def note_for_def
      ex_math_msg_def strftime_ex ex_math_fields Let_def)

lemma scan_ex_broken:
  "scan_global us send now ex_broken s = ([], s)"
  "scan_personal send now uid ex_broken s = ([], s)"
  by (simp_all add: scan_global_def scan_personal_def strptime_ex_dates)

lemma check_ex_board:
  "check_deadlines (Some us) send ex_t24 ex_board =
     (map (\<lambda>uid. Send ''Math_02.01.2030_24'' uid (ex_math_msg GlobalDeadline)
              (send uid (ex_math_msg GlobalDeadline))) us
        @ [Mark ''Math_02.01.2030_24'' ''2030-01-01 00:00:00''],
      ex_board\<lparr>g_sent_reminders := [''Math_02.01.2030_24'' \<mapsto> ''2030-01-01 00:00:00'']\<rparr>)"
  by (simp add: check_deadlines_def ex_board_def scan_ex_broken scan_global_ex_math)

lemma check_ex_desk:
  "check_personal_deadlines send ex_t24 ex_desk =
     ([Send ''42_Math_02.01.2030_24'' ''42'' (ex_math_msg PersonalDeadline)
              (send ''42'' (ex_math_msg PersonalDeadline)),
       Mark ''42_Math_02.01.2030_24'' ''2030-01-01 00:00:00''],
      ex_desk\<lparr>u_sent_reminders := [''42_Math_02.01.2030_24'' \<mapsto> ''2030-01-01 00:00:00'']\<rparr>)"
  by (simp add: check_personal_deadlines_def ex_desk_def scan_user_def scan_ex_broken
      scan_personal_ex_math)

subsection \<open>A ledger key is written once\<close>

text \<open>
  Claim C1. In any run of a manager (checks at any times, with deadlines added and
  removed in between) a ledger key is assigned at most once; a key that the ledger
  holds is never assigned again, its entry keeps its value, and no message is sent for it
  in the rest of the run, whatever the times of the later checks. This holds for the
  shared and for the personal manager.
\<close>

theorem ledger_key_written_once:
  "count_list (mark_keys (fst (global_run ops m))) k \<le> 1
   \<and> (k \<in> dom (g_sent_reminders m) \<longrightarrow>
        k \<notin> event_key ` set (fst (global_run ops m))
        \<and> g_sent_reminders (snd (global_run ops m)) k = g_sent_reminders m k)
   \<and> (k \<in> dom (g_sent_reminders (snd (global_run ops m))) \<longrightarrow>
        k \<notin> event_key ` set (fst (global_run ops' (snd (global_run ops m)))))
   \<and> count_list (mark_keys (fst (user_run uops um))) k \<le> 1
   \<and> (k \<in> dom (u_sent_reminders um) \<longrightarrow>
        k \<notin> event_key ` set (fst (user_run uops um))
        \<and> u_sent_reminders (snd (user_run uops um)) k = u_sent_reminders um k)
   \<and> (k \<in> dom (u_sent_reminders (snd (user_run uops um))) \<longrightarrow>
        k \<notin> event_key ` set (fst (user_run uops' (snd (user_run uops um)))))"
proof -
  note g = fresh_trace_once [OF global_run_fresh]
  note u = fresh_trace_once [OF user_run_fresh]
  show ?thesis
    using g(1) [of ops m k] g(2) [of k m ops] g(3) [of k m ops]
      g(2) [of k "snd (global_run ops m)" ops']
      u(1) [of uops um k] u(2) [of k um uops] u(3) [of k um uops]
      u(2) [of k "snd (user_run uops um)" uops']
    by blast
qed

text \<open>The check at midnight marks the 24 hour reminder although every send fails; the
  check 30 seconds later is inside the same window and sends nothing for that key, even
  after the same subject and date have been added again.\<close>

theorem ledger_key_written_once_witness:
  "''Math_02.01.2030_24''
      \<in> dom (g_sent_reminders (snd (global_run [GCheck (Some ex_registry) ex_down ex_t24] ex_board)))
   \<and> in_window 24 (hours_left ex_due ex_t24_again)
   \<and> ''Math_02.01.2030_24''
      \<notin> event_key ` set (fst (global_run
            [GAdd ex_now ''Math'' ''HW9'' ''02.01.2030'', GCheck (Some ex_registry) ex_up ex_t24_again]
            (snd (global_run [GCheck (Some ex_registry) ex_down ex_t24] ex_board))))
   \<and> ''42_Math_02.01.2030_24''
      \<in> dom (u_sent_reminders (snd (user_run [UCheck ex_down ex_t24] ex_desk)))
   \<and> ''42_Math_02.01.2030_24''
      \<notin> event_key ` set (fst (user_run
            [UAdd ex_now ''42'' ''Math'' ''HW9'' ''02.01.2030'', UCheck ex_up ex_t24_again]
            (snd (user_run [UCheck ex_down ex_t24] ex_desk))))"
proof -
  have g: "''Math_02.01.2030_24''
      \<in> dom (g_sent_reminders (snd (global_run [GCheck (Some ex_registry) ex_down ex_t24] ex_board)))"
    by (simp add: check_ex_board)
  have u: "''42_Math_02.01.2030_24''
      \<in> dom (u_sent_reminders (snd (user_run [UCheck ex_down ex_t24] ex_desk)))"
    by (simp add: check_ex_desk)
  have w: "in_window 24 (hours_left ex_due ex_t24_again)"
    by (simp add: hours_left_due in_window_iff)
  note a = ledger_key_written_once [where k = "''Math_02.01.2030_24''" and m = ex_board
      and ops = "[GCheck (Some ex_registry) ex_down ex_t24]"
      and ops' = "[GAdd ex_now ''Math'' ''HW9'' ''02.01.2030'',
         GCheck (Some ex_registry) ex_up ex_t24_again]"]
  note b = ledger_key_written_once [where k = "''42_Math_02.01.2030_24''" and um = ex_desk
      and uops = "[UCheck ex_down ex_t24]"
      and uops' = "[UAdd ex_now ''42'' ''Math'' ''HW9'' ''02.01.2030'', UCheck ex_up ex_t24_again]"]
  from a g have g': "''Math_02.01.2030_24''
      \<notin> event_key ` set (fst (global_run
            [GAdd ex_now ''Math'' ''HW9'' ''02.01.2030'', GCheck (Some ex_registry) ex_up ex_t24_again]
            (snd (global_run [GCheck (Some ex_registry) ex_down ex_t24] ex_board))))"
    by blast
  from b u have u': "''42_Math_02.01.2030_24''
      \<notin> event_key ` set (fst (user_run
            [UAdd ex_now ''42'' ''Math'' ''HW9'' ''02.01.2030'', UCheck ex_up ex_t24_again]
            (snd (user_run [UCheck ex_down ex_t24] ex_desk))))"
    by blast
  from g w g' u u' show ?thesis by (intro conjI)
qed

subsection \<open>Facts about a ledger that has settled\<close>

lemma remind_global_quiet:
  "dom (snd (remind_global us send now dl hl h s)) \<subseteq> dom t \<Longrightarrow>
     remind_global us send' now dl hl h t = ([], t)"
proof (cases "in_window h hl")
  case False
  then show ?thesis by (simp add: remind_global_def)
next
  case True
  assume d: "dom (snd (remind_global us send now dl hl h s)) \<subseteq> dom t"
  from True have "reminder_key dl h \<in> dom (snd (remind_global us send now dl hl h s))"
    by (auto simp: remind_global_def Let_def)
  with d have "reminder_key dl h \<in> dom t" by blast
  then show ?thesis by (auto simp: remind_global_def Let_def)
qed

lemma remind_personal_quiet:
  "dom (snd (remind_personal send now uid dl hl h s)) \<subseteq> dom t \<Longrightarrow>
     remind_personal send' now uid dl hl h t = ([], t)"
proof (cases "in_window h hl")
  case False
  then show ?thesis by (simp add: remind_personal_def)
next
  case True
  assume d: "dom (snd (remind_personal send now uid dl hl h s)) \<subseteq> dom t"
  from True have "r_key uid dl h \<in> dom (snd (remind_personal send now uid dl hl h s))"
    by (auto simp: remind_personal_def Let_def)
  with d have "r_key uid dl h \<in> dom t" by blast
  then show ?thesis by (auto simp: remind_personal_def Let_def)
qed

lemma scan_global_grows: "dom s \<subseteq> dom (snd (scan_global us send now dl s))"
  by (rule fresh_trace_once(4) [OF scan_global_fresh])

lemma scan_personal_grows: "dom s \<subseteq> dom (snd (scan_personal send now uid dl s))"
  by (rule fresh_trace_once(4) [OF scan_personal_fresh])

lemma scan_user_grows: "dom s \<subseteq> dom (snd (scan_user send now e s))"
  by (rule fresh_trace_once(4) [OF scan_user_fresh])

lemma scan_global_quiet:
  assumes "dom (snd (scan_global us send now dl s)) \<subseteq> dom t"
  shows "scan_global us send' now dl t = ([], t)"
proof (cases "strptime (deadline dl)")
  case None
  then show ?thesis by (simp add: scan_global_def)
next
  case (Some dt)
  let ?hl = "hours_left dt now"
  from assms Some
  have "dom (snd (for_each (remind_global us send now dl ?hl) REMINDER_HOURS s)) \<subseteq> dom t"
    by (simp add: scan_global_def)
  then have "for_each (remind_global us send' now dl ?hl) REMINDER_HOURS t = ([], t)"
    by (rule for_each_settles [rotated 2])
      (rule fresh_trace_once(4) [OF remind_global_fresh], rule remind_global_quiet)
  with Some show ?thesis by (simp add: scan_global_def)
qed

lemma scan_personal_quiet:
  assumes "dom (snd (scan_personal send now uid dl s)) \<subseteq> dom t"
  shows "scan_personal send' now uid dl t = ([], t)"
proof (cases "strptime (deadline dl)")
  case None
  then show ?thesis by (simp add: scan_personal_def)
next
  case (Some dt)
  let ?hl = "hours_left dt now"
  from assms Some
  have "dom (snd (for_each (remind_personal send now uid dl ?hl) REMINDER_HOURS s)) \<subseteq> dom t"
    by (simp add: scan_personal_def)
  then have "for_each (remind_personal send' now uid dl ?hl) REMINDER_HOURS t = ([], t)"
    by (rule for_each_settles [rotated 2])
      (rule fresh_trace_once(4) [OF remind_personal_fresh], rule remind_personal_quiet)
  with Some show ?thesis by (simp add: scan_personal_def)
qed

lemma scan_user_quiet:
  assumes "dom (snd (scan_user send now e s)) \<subseteq> dom t"
  shows "scan_user send' now e t = ([], t)"
proof (cases e)
  case (Pair uid arr)
  from assms have "dom (snd (for_each (scan_personal send now uid) arr s)) \<subseteq> dom t"
    by (simp add: scan_user_def Pair)
  then have "for_each (scan_personal send' now uid) arr t = ([], t)"
    by (rule for_each_settles [rotated 2]) (rule scan_personal_grows, rule scan_personal_quiet)
  then show ?thesis by (simp add: scan_user_def Pair)
qed

subsection \<open>Records whose date does not parse\<close>

lemma for_each_skip:
  assumes "\<And>s. body x s = ([], s)"
  shows "for_each body (pre @ x # post) s = for_each body (pre @ post) s"
  by (simp add: for_each_append assms split_beta)

lemma check_deadlines_keeps_list:
  "g_deadlines (snd (check_deadlines um send now m)) = g_deadlines m"
  by (simp add: check_deadlines_def split_beta split: option.splits)

lemma check_personal_deadlines_keeps_dict:
  "u_deadlines (snd (check_personal_deadlines send now u)) = u_deadlines u"
  by (simp add: check_personal_deadlines_def split_beta)

lemma scan_global_unparseable:
  "strptime (deadline dl) = None \<Longrightarrow> scan_global us send now dl s = ([], s)"
  by (simp add: scan_global_def)

lemma scan_personal_unparseable:
  "strptime (deadline dl) = None \<Longrightarrow> scan_personal send now uid dl s = ([], s)"
  by (simp add: scan_personal_def)

lemma scan_user_skip:
  assumes "strptime (deadline dl) = None"
  shows "scan_user send now (uid, pre @ dl # post) s = scan_user send now (uid, pre @ post) s"
  unfolding scan_user_def prod.case
  by (rule for_each_skip) (rule scan_personal_unparseable [OF assms])

lemma for_each_cong_at:
  assumes "\<And>s. body x s = body y s"
  shows "for_each body (pre @ x # post) s = for_each body (pre @ y # post) s"
  by (simp add: for_each_append assms split_beta)

text \<open>
  Claim C8. A check never changes the stored deadlines. A record whose date text does not
  parse contributes nothing: the check of a list (shared, or of one user) that contains
  such a record sends the same messages and leaves the same ledger as the check of the
  list without it, so the records before and after it are evaluated as usual, and the
  record itself is still in the list afterwards, unchanged.
\<close>

theorem unparseable_record_is_skipped:
  "g_deadlines (snd (check_deadlines um send now m)) = g_deadlines m
   \<and> u_deadlines (snd (check_personal_deadlines send now u)) = u_deadlines u
   \<and> (strptime (deadline dl) = None \<longrightarrow>
        fst (check_deadlines um send now (m\<lparr>g_deadlines := pre @ dl # post\<rparr>))
          = fst (check_deadlines um send now (m\<lparr>g_deadlines := pre @ post\<rparr>))
        \<and> g_sent_reminders (snd (check_deadlines um send now (m\<lparr>g_deadlines := pre @ dl # post\<rparr>)))
          = g_sent_reminders (snd (check_deadlines um send now (m\<lparr>g_deadlines := pre @ post\<rparr>)))
        \<and> g_deadlines (snd (check_deadlines um send now (m\<lparr>g_deadlines := pre @ dl # post\<rparr>)))
          = pre @ dl # post
        \<and> fst (check_personal_deadlines send now
                 (u\<lparr>u_deadlines := before @ (uid, pre @ dl # post) # after\<rparr>))
          = fst (check_personal_deadlines send now
                 (u\<lparr>u_deadlines := before @ (uid, pre @ post) # after\<rparr>))
        \<and> u_sent_reminders (snd (check_personal_deadlines send now
                 (u\<lparr>u_deadlines := before @ (uid, pre @ dl # post) # after\<rparr>)))
          = u_sent_reminders (snd (check_personal_deadlines send now
                 (u\<lparr>u_deadlines := before @ (uid, pre @ post) # after\<rparr>)))
        \<and> u_deadlines (snd (check_personal_deadlines send now
                 (u\<lparr>u_deadlines := before @ (uid, pre @ dl # post) # after\<rparr>)))
          = before @ (uid, pre @ dl # post) # after)"
proof -
  have g: "for_each (scan_global us send now) (pre @ dl # post) s
      = for_each (scan_global us send now) (pre @ post) s"
    if "strptime (deadline dl) = None" for us s
    by (rule for_each_skip) (rule scan_global_unparseable [OF that])
  have p: "for_each (scan_user send now) (before @ (uid, pre @ dl # post) # after) s
      = for_each (scan_user send now) (before @ (uid, pre @ post) # after) s"
    if "strptime (deadline dl) = None" for s
    by (rule for_each_cong_at) (rule scan_user_skip [OF that])
  have c: "strptime (deadline dl) = None \<Longrightarrow>
        fst (check_deadlines um send now (m\<lparr>g_deadlines := pre @ dl # post\<rparr>))
          = fst (check_deadlines um send now (m\<lparr>g_deadlines := pre @ post\<rparr>))
        \<and> g_sent_reminders (snd (check_deadlines um send now (m\<lparr>g_deadlines := pre @ dl # post\<rparr>)))
          = g_sent_reminders (snd (check_deadlines um send now (m\<lparr>g_deadlines := pre @ post\<rparr>)))"
    by (cases um) (simp_all add: check_deadlines_def g split_beta)
  have d: "strptime (deadline dl) = None \<Longrightarrow>
        fst (check_personal_deadlines send now
                 (u\<lparr>u_deadlines := before @ (uid, pre @ dl # post) # after\<rparr>))
          = fst (check_personal_deadlines send now
                 (u\<lparr>u_deadlines := before @ (uid, pre @ post) # after\<rparr>))
        \<and> u_sent_reminders (snd (check_personal_deadlines send now
                 (u\<lparr>u_deadlines := before @ (uid, pre @ dl # post) # after\<rparr>)))
          = u_sent_reminders (snd (check_personal_deadlines send now
                 (u\<lparr>u_deadlines := before @ (uid, pre @ post) # after\<rparr>)))"
    by (simp add: check_personal_deadlines_def p split_beta)
  from c d show ?thesis
    by (simp add: check_deadlines_keeps_list check_personal_deadlines_keeps_dict)
qed

text \<open>The record with the ISO date stands before the one that is due: the reminder of
  the latter is sent and both records stay.\<close>

theorem unparseable_record_is_skipped_witness:
  "strptime (deadline ex_broken) = None
   \<and> fst (check_deadlines (Some ex_registry) ex_up ex_t24 ex_board)
       = fst (check_deadlines (Some ex_registry) ex_up ex_t24 (ex_board\<lparr>g_deadlines := [ex_math]\<rparr>))
   \<and> ''Math_02.01.2030_24'' \<in> set (mark_keys (fst (check_deadlines (Some ex_registry) ex_up ex_t24 ex_board)))
   \<and> g_deadlines (snd (check_deadlines (Some ex_registry) ex_up ex_t24 ex_board)) = [ex_broken, ex_math]
   \<and> fst (check_personal_deadlines ex_up ex_t24 ex_desk)
       = fst (check_personal_deadlines ex_up ex_t24 (ex_desk\<lparr>u_deadlines := [(''42'', [ex_math])]\<rparr>))
   \<and> ''42_Math_02.01.2030_24'' \<in> set (mark_keys (fst (check_personal_deadlines ex_up ex_t24 ex_desk)))
   \<and> u_deadlines (snd (check_personal_deadlines ex_up ex_t24 ex_desk)) = [(''42'', [ex_broken, ex_math])]"
proof -
  note n = strptime_ex_dates(4)
  have b: "ex_board\<lparr>g_deadlines := [] @ ex_broken # [ex_math]\<rparr> = ex_board"
    "ex_desk\<lparr>u_deadlines := [] @ (''42'', [] @ ex_broken # [ex_math]) # []\<rparr> = ex_desk"
    by (simp_all add: ex_board_def ex_desk_def)
  note t = unparseable_record_is_skipped [where dl = ex_broken and um = "Some ex_registry"
      and send = ex_up and now = ex_t24 and m = ex_board and pre = "[]" and post = "[ex_math]"
      and u = ex_desk and before = "[]" and uid = "''42''" and after = "[]", unfolded b]
  have m: "''Math_02.01.2030_24'' \<in> set (mark_keys (fst (check_deadlines (Some ex_registry) ex_up ex_t24 ex_board)))"
    "''42_Math_02.01.2030_24'' \<in> set (mark_keys (fst (check_personal_deadlines ex_up ex_t24 ex_desk)))"
    by (simp_all add: check_ex_board check_ex_desk mark_keys_append mark_keys_sends)
  have l: "g_deadlines ex_board = [ex_broken, ex_math]"
    "u_deadlines ex_desk = [(''42'', [ex_broken, ex_math])]"
    by (simp_all add: ex_board_def ex_desk_def)
  from t n m l show ?thesis by simp
qed

subsection \<open>Facts about the transport and the order of events\<close>

lemma for_each_step:
  "for_each body (x # xs) s =
     (fst (body x s) @ fst (for_each body xs (snd (body x s))),
      snd (for_each body xs (snd (body x s))))"
  by (simp add: split_beta)

lemma for_each_transport:
  assumes "\<And>x s. snd (f x s) = snd (g x s)
             \<and> map attempt (fst (f x s)) = map attempt (fst (g x s))"
  shows "snd (for_each f xs s) = snd (for_each g xs s)
     \<and> map attempt (fst (for_each f xs s)) = map attempt (fst (for_each g xs s))"
proof (induction xs arbitrary: s)
  case Nil
  show ?case by simp
next
  case (Cons x xs)
  from assms [of x s] have 1: "snd (f x s) = snd (g x s)"
    and 2: "map attempt (fst (f x s)) = map attempt (fst (g x s))" by blast+
  from Cons.IH [of "snd (g x s)"] 1 2 show ?case
    unfolding for_each_step by simp
qed

lemma remind_global_transport:
  "snd (remind_global us send now dl hl h s) = snd (remind_global us send' now dl hl h s)
   \<and> map attempt (fst (remind_global us send now dl hl h s))
       = map attempt (fst (remind_global us send' now dl hl h s))"
  by (simp add: remind_global_def Let_def comp_def)

lemma remind_personal_transport:
  "snd (remind_personal send now uid dl hl h s) = snd (remind_personal send' now uid dl hl h s)
   \<and> map attempt (fst (remind_personal send now uid dl hl h s))
       = map attempt (fst (remind_personal send' now uid dl hl h s))"
  by (simp add: remind_personal_def Let_def)

lemma scan_global_transport:
  "snd (scan_global us send now dl s) = snd (scan_global us send' now dl s)
   \<and> map attempt (fst (scan_global us send now dl s))
       = map attempt (fst (scan_global us send' now dl s))"
proof (cases "strptime (deadline dl)")
  case None
  then show ?thesis by (simp add: scan_global_def)
next
  case (Some dt)
  show ?thesis
    unfolding scan_global_def Some option.case
    by (rule for_each_transport) (rule remind_global_transport)
qed

lemma scan_personal_transport:
  "snd (scan_personal send now uid dl s) = snd (scan_personal send' now uid dl s)
   \<and> map attempt (fst (scan_personal send now uid dl s))
       = map attempt (fst (scan_personal send' now uid dl s))"
proof (cases "strptime (deadline dl)")
  case None
  then show ?thesis by (simp add: scan_personal_def)
next
  case (Some dt)
  show ?thesis
    unfolding scan_personal_def Some option.case
    by (rule for_each_transport) (rule remind_personal_transport)
qed

lemma scan_user_transport:
  "snd (scan_user send now e s) = snd (scan_user send' now e s)
   \<and> map attempt (fst (scan_user send now e s)) = map attempt (fst (scan_user send' now e s))"
proof (cases e)
  case (Pair uid arr)
  show ?thesis
    unfolding scan_user_def Pair prod.case
    by (rule for_each_transport) (rule scan_personal_transport)
qed

lemma check_deadlines_transport:
  "snd (check_deadlines um send now m) = snd (check_deadlines um send' now m)
   \<and> map attempt (fst (check_deadlines um send now m))
       = map attempt (fst (check_deadlines um send' now m))"
proof (cases um)
  case None
  then show ?thesis by (simp add: check_deadlines_def)
next
  case (Some us)
  from for_each_transport [of "scan_global us send now" "scan_global us send' now"
      "g_deadlines m" "g_sent_reminders m", OF scan_global_transport]
  show ?thesis
    by (simp add: check_deadlines_def Some split_beta)
qed

lemma check_personal_deadlines_transport:
  "snd (check_personal_deadlines send now u) = snd (check_personal_deadlines send' now u)
   \<and> map attempt (fst (check_personal_deadlines send now u))
       = map attempt (fst (check_personal_deadlines send' now u))"
  using for_each_transport [of "scan_user send now" "scan_user send' now"
      "u_deadlines u" "u_sent_reminders u", OF scan_user_transport]
  by (simp add: check_personal_deadlines_def split_beta)


lemma broadcast_then_mark_Nil: "broadcast_then_mark us send []"
  by (simp add: broadcast_then_mark_def)

lemma broadcast_then_mark_append:
  assumes a: "broadcast_then_mark us send e1" and b: "broadcast_then_mark us send e2"
  shows "broadcast_then_mark us send (e1 @ e2)"
  unfolding broadcast_then_mark_def
proof (intro allI impI)
  fix k ts
  assume "Mark k ts \<in> set (e1 @ e2)"
  then consider (l) "Mark k ts \<in> set e1" | (r) "Mark k ts \<in> set e2" by auto
  then show "\<exists>pre post msg.
      e1 @ e2 = pre @ map (\<lambda>uid. Send k uid msg (send uid msg)) us @ Mark k ts # post"
  proof cases
    case l
    with a obtain pre post msg
      where "e1 = pre @ map (\<lambda>uid. Send k uid msg (send uid msg)) us @ Mark k ts # post"
      unfolding broadcast_then_mark_def by blast
    then have "e1 @ e2 = pre @ map (\<lambda>uid. Send k uid msg (send uid msg)) us @ Mark k ts # (post @ e2)"
      by simp
    then show ?thesis by blast
  next
    case r
    with b obtain pre post msg
      where "e2 = pre @ map (\<lambda>uid. Send k uid msg (send uid msg)) us @ Mark k ts # post"
      unfolding broadcast_then_mark_def by blast
    then have "e1 @ e2 = (e1 @ pre) @ map (\<lambda>uid. Send k uid msg (send uid msg)) us @ Mark k ts # post"
      by simp
    then show ?thesis by blast
  qed
qed

lemma send_then_mark_Nil: "send_then_mark send []"
  by (simp add: send_then_mark_def)

lemma send_then_mark_append:
  assumes a: "send_then_mark send e1" and b: "send_then_mark send e2"
  shows "send_then_mark send (e1 @ e2)"
  unfolding send_then_mark_def
proof (intro allI impI)
  fix k ts
  assume "Mark k ts \<in> set (e1 @ e2)"
  then consider (l) "Mark k ts \<in> set e1" | (r) "Mark k ts \<in> set e2" by auto
  then show "\<exists>pre post uid msg.
      e1 @ e2 = pre @ Send k uid msg (send uid msg) # Mark k ts # post"
  proof cases
    case l
    with a obtain pre post uid msg
      where "e1 = pre @ Send k uid msg (send uid msg) # Mark k ts # post"
      unfolding send_then_mark_def by blast
    then have "e1 @ e2 = pre @ Send k uid msg (send uid msg) # Mark k ts # (post @ e2)"
      by simp
    then show ?thesis by blast
  next
    case r
    with b obtain pre post uid msg
      where "e2 = pre @ Send k uid msg (send uid msg) # Mark k ts # post"
      unfolding send_then_mark_def by blast
    then have "e1 @ e2 = (e1 @ pre) @ Send k uid msg (send uid msg) # Mark k ts # post"
      by simp
    then show ?thesis by blast
  qed
qed

lemma for_each_ordered:
  assumes nil: "P []" and app: "\<And>a b. P a \<Longrightarrow> P b \<Longrightarrow> P (a @ b)"
    and body: "\<And>x s. P (fst (f x s))"
  shows "P (fst (for_each f xs s))"
proof (induction xs arbitrary: s)
  case Nil
  show ?case by (simp add: nil)
next
  case (Cons x xs)
  have "P (fst (f x s) @ fst (for_each f xs (snd (f x s))))"
    using body [of x s] Cons.IH [of "snd (f x s)"] by (rule app)
  then show ?case by (simp add: split_beta)
qed

lemma Mark_not_in_sends: "Mark k ts \<notin> set (map (\<lambda>uid. Send k' uid (msg uid) (ok uid)) us)"
  by (induction us) simp_all

lemma remind_global_ordered:
  "broadcast_then_mark us send (fst (remind_global us send now dl hl h s))"
proof (cases "in_window h hl \<and> s (reminder_key dl h) = None")
  case False
  then show ?thesis
    by (auto simp: remind_global_def Let_def broadcast_then_mark_Nil)
next
  case True
  let ?k = "reminder_key dl h" and ?m = "make_msg GlobalDeadline dl h"
  let ?b = "map (\<lambda>uid. Send ?k uid ?m (send uid ?m)) us"
  from True have e: "fst (remind_global us send now dl hl h s) = ?b @ [Mark ?k (strftime now)]"
    by (simp add: remind_global_def Let_def)
  show ?thesis
    unfolding broadcast_then_mark_def e
  proof (intro allI impI)
    fix k ts
    assume "Mark k ts \<in> set (?b @ [Mark ?k (strftime now)])"
    then have "k = ?k \<and> ts = strftime now"
      using Mark_not_in_sends [of k ts ?k "\<lambda>uid. ?m" "\<lambda>uid. send uid ?m" us] by auto
    then have "?b @ [Mark ?k (strftime now)]
        = [] @ map (\<lambda>uid. Send k uid ?m (send uid ?m)) us @ Mark k ts # []"
      by simp
    then show "\<exists>pre post msg. ?b @ [Mark ?k (strftime now)]
        = pre @ map (\<lambda>uid. Send k uid msg (send uid msg)) us @ Mark k ts # post"
      by blast
  qed
qed

lemma remind_personal_ordered:
  "send_then_mark send (fst (remind_personal send now uid dl hl h s))"
proof (cases "in_window h hl \<and> s (r_key uid dl h) = None")
  case False
  then show ?thesis
    by (auto simp: remind_personal_def Let_def send_then_mark_Nil)
next
  case True
  let ?k = "r_key uid dl h" and ?m = "make_msg PersonalDeadline dl h"
  from True have e: "fst (remind_personal send now uid dl hl h s)
      = [Send ?k uid ?m (send uid ?m), Mark ?k (strftime now)]"
    by (simp add: remind_personal_def Let_def)
  show ?thesis
    unfolding send_then_mark_def e
  proof (intro allI impI)
    fix k ts
    assume "Mark k ts \<in> set [Send ?k uid ?m (send uid ?m), Mark ?k (strftime now)]"
    then have "k = ?k \<and> ts = strftime now" by simp
    then have "[Send ?k uid ?m (send uid ?m), Mark ?k (strftime now)]
        = [] @ Send k uid ?m (send uid ?m) # Mark k ts # []"
      by simp
    then show "\<exists>pre post uid' msg. [Send ?k uid ?m (send uid ?m), Mark ?k (strftime now)]
        = pre @ Send k uid' msg (send uid' msg) # Mark k ts # post"
      by blast
  qed
qed

lemma scan_global_ordered: "broadcast_then_mark us send (fst (scan_global us send now dl s))"
proof (cases "strptime (deadline dl)")
  case None
  then show ?thesis by (simp add: scan_global_def broadcast_then_mark_Nil)
next
  case (Some dt)
  show ?thesis
    unfolding scan_global_def Some option.case
    by (rule for_each_ordered [where P = "broadcast_then_mark us send"])
      (rule broadcast_then_mark_Nil, erule (1) broadcast_then_mark_append,
        rule remind_global_ordered)
qed

lemma scan_personal_ordered: "send_then_mark send (fst (scan_personal send now uid dl s))"
proof (cases "strptime (deadline dl)")
  case None
  then show ?thesis by (simp add: scan_personal_def send_then_mark_Nil)
next
  case (Some dt)
  show ?thesis
    unfolding scan_personal_def Some option.case
    by (rule for_each_ordered [where P = "send_then_mark send"])
      (rule send_then_mark_Nil, erule (1) send_then_mark_append, rule remind_personal_ordered)
qed

lemma scan_user_ordered: "send_then_mark send (fst (scan_user send now e s))"
proof (cases e)
  case (Pair uid arr)
  show ?thesis
    unfolding scan_user_def Pair prod.case
    by (rule for_each_ordered [where P = "send_then_mark send"])
      (rule send_then_mark_Nil, erule (1) send_then_mark_append, rule scan_personal_ordered)
qed

lemma check_deadlines_ordered:
  "broadcast_then_mark us send (fst (check_deadlines (Some us) send now m))"
proof -
  have "broadcast_then_mark us send
      (fst (for_each (scan_global us send now) (g_deadlines m) (g_sent_reminders m)))"
    by (rule for_each_ordered [where P = "broadcast_then_mark us send"])
      (rule broadcast_then_mark_Nil, erule (1) broadcast_then_mark_append,
        rule scan_global_ordered)
  then show ?thesis by (simp add: check_deadlines_def split_beta)
qed

lemma check_personal_deadlines_ordered:
  "send_then_mark send (fst (check_personal_deadlines send now u))"
proof -
  have "send_then_mark send
      (fst (for_each (scan_user send now) (u_deadlines u) (u_sent_reminders u)))"
    by (rule for_each_ordered [where P = "send_then_mark send"])
      (rule send_then_mark_Nil, erule (1) send_then_mark_append, rule scan_user_ordered)
  then show ?thesis by (simp add: check_personal_deadlines_def split_beta)
qed

lemma fresh_trace_sent_key:
  assumes "fresh_trace s ev s'" "e \<in> set ev"
  shows "event_key e \<in> dom s'"
proof -
  from assms(2) have "event_key e \<in> event_key ` set ev" by (rule imageI)
  with fresh_trace_keys [OF assms(1)] have "event_key e \<in> set (mark_keys ev)" by blast
  then show ?thesis unfolding fresh_trace_dom [OF assms(1)] by blast
qed

subsection \<open>A failing send does not stop the reminder\<close>

text \<open>
  Claim C7. The outcome of the calls of the transport changes neither the ledger a check
  leaves nor the calls it attempts. In a shared check every assignment of a key comes
  directly after one call for every user of the registry, in the personal check directly
  after the call for the owner; so a call that fails does not keep the later recipients
  from being called, and the key of every call that was made is in the ledger afterwards,
  also when every call fails.
\<close>

theorem send_failure_is_isolated:
  "snd (check_deadlines um send now m) = snd (check_deadlines um send' now m)
   \<and> map attempt (fst (check_deadlines um send now m))
       = map attempt (fst (check_deadlines um send' now m))
   \<and> broadcast_then_mark us send (fst (check_deadlines (Some us) send now m))
   \<and> (e \<in> set (fst (check_deadlines um send now m)) \<longrightarrow>
        event_key e \<in> dom (g_sent_reminders (snd (check_deadlines um send now m))))
   \<and> snd (check_personal_deadlines send now u) = snd (check_personal_deadlines send' now u)
   \<and> map attempt (fst (check_personal_deadlines send now u))
       = map attempt (fst (check_personal_deadlines send' now u))
   \<and> send_then_mark send (fst (check_personal_deadlines send now u))
   \<and> (e \<in> set (fst (check_personal_deadlines send now u)) \<longrightarrow>
        event_key e \<in> dom (u_sent_reminders (snd (check_personal_deadlines send now u))))"
  using check_deadlines_transport [of um send now m send']
    check_personal_deadlines_transport [of send now u send']
    check_deadlines_ordered [of us send now m]
    check_personal_deadlines_ordered [of send now u]
    fresh_trace_sent_key [OF check_deadlines_fresh, of e um send now m]
    fresh_trace_sent_key [OF check_personal_deadlines_fresh, of e send now u]
  by blast

text \<open>With a transport that fails at every call, both users of the registry are called
  and the key is marked; the ledger is the one a working transport leaves.\<close>

theorem send_failure_is_isolated_witness:
  "fst (check_deadlines (Some ex_registry) ex_down ex_t24 ex_board)
     = [Send ''Math_02.01.2030_24'' ''7'' (ex_math_msg GlobalDeadline) False,
        Send ''Math_02.01.2030_24'' ''42'' (ex_math_msg GlobalDeadline) False,
        Mark ''Math_02.01.2030_24'' ''2030-01-01 00:00:00'']
   \<and> ''Math_02.01.2030_24''
       \<in> dom (g_sent_reminders (snd (check_deadlines (Some ex_registry) ex_down ex_t24 ex_board)))
   \<and> snd (check_deadlines (Some ex_registry) ex_down ex_t24 ex_board)
       = snd (check_deadlines (Some ex_registry) ex_up ex_t24 ex_board)
   \<and> broadcast_then_mark ex_registry ex_down
        (fst (check_deadlines (Some ex_registry) ex_down ex_t24 ex_board))
   \<and> fst (check_personal_deadlines ex_down ex_t24 ex_desk)
     = [Send ''42_Math_02.01.2030_24'' ''42'' (ex_math_msg PersonalDeadline) False,
        Mark ''42_Math_02.01.2030_24'' ''2030-01-01 00:00:00'']
   \<and> ''42_Math_02.01.2030_24''
       \<in> dom (u_sent_reminders (snd (check_personal_deadlines ex_down ex_t24 ex_desk)))
   \<and> snd (check_personal_deadlines ex_down ex_t24 ex_desk)
       = snd (check_personal_deadlines ex_up ex_t24 ex_desk)"
proof -
  let ?g = "Send ''Math_02.01.2030_24'' ''7'' (ex_math_msg GlobalDeadline) False"
  let ?p = "Send ''42_Math_02.01.2030_24'' ''42'' (ex_math_msg PersonalDeadline) False"
  have g: "fst (check_deadlines (Some ex_registry) ex_down ex_t24 ex_board)
     = [?g, Send ''Math_02.01.2030_24'' ''42'' (ex_math_msg GlobalDeadline) False,
        Mark ''Math_02.01.2030_24'' ''2030-01-01 00:00:00'']"
    by (simp add: check_ex_board ex_registry_def ex_down_def)
  have p: "fst (check_personal_deadlines ex_down ex_t24 ex_desk)
     = [?p, Mark ''42_Math_02.01.2030_24'' ''2030-01-01 00:00:00'']"
    by (simp add: check_ex_desk ex_down_def)
  have gi: "?g \<in> set (fst (check_deadlines (Some ex_registry) ex_down ex_t24 ex_board))"
    unfolding g by simp
  have pi: "?p \<in> set (fst (check_personal_deadlines ex_down ex_t24 ex_desk))"
    unfolding p by simp
  note a = send_failure_is_isolated [where um = "Some ex_registry" and send = ex_down
      and now = ex_t24 and m = ex_board and send' = ex_up and us = ex_registry and e = ?g
      and u = ex_desk]
  note b = send_failure_is_isolated [where um = "Some ex_registry" and send = ex_down
      and now = ex_t24 and m = ex_board and send' = ex_up and us = ex_registry and e = ?p
      and u = ex_desk]
  from a gi have 1: "event_key ?g
       \<in> dom (g_sent_reminders (snd (check_deadlines (Some ex_registry) ex_down ex_t24 ex_board)))"
    by blast
  from b pi have 2: "event_key ?p
       \<in> dom (u_sent_reminders (snd (check_personal_deadlines ex_down ex_t24 ex_desk)))"
    by blast
  from a have 3: "snd (check_deadlines (Some ex_registry) ex_down ex_t24 ex_board)
       = snd (check_deadlines (Some ex_registry) ex_up ex_t24 ex_board)"
    and 4: "broadcast_then_mark ex_registry ex_down
        (fst (check_deadlines (Some ex_registry) ex_down ex_t24 ex_board))"
    and 5: "snd (check_personal_deadlines ex_down ex_t24 ex_desk)
       = snd (check_personal_deadlines ex_up ex_t24 ex_desk)"
    by blast+
  from g p 1 2 3 4 5 show ?thesis
    unfolding event_key.simps by (intro conjI)
qed

subsection \<open>Facts about the keys a check assigns\<close>

lemma for_each_mark_keys:
  assumes "\<And>x s. x \<in> set xs \<Longrightarrow> set (mark_keys (fst (body x s))) \<subseteq> K"
  shows "set (mark_keys (fst (for_each body xs s))) \<subseteq> K"
  using assms
proof (induction xs arbitrary: s)
  case Nil
  show ?case by simp
next
  case (Cons x xs)
  have 1: "set (mark_keys (fst (body x s))) \<subseteq> K"
    by (rule Cons.prems) simp
  have 2: "set (mark_keys (fst (for_each body xs (snd (body x s))))) \<subseteq> K"
    by (rule Cons.IH) (rule Cons.prems, simp)
  from 1 2 show ?case
    by (simp add: split_beta mark_keys_append)
qed

lemma scan_global_keys:
  "set (mark_keys (fst (scan_global us send now dl s)))
     \<subseteq> {reminder_key dl h | h. h \<in> set REMINDER_HOURS}"
proof (cases "strptime (deadline dl)")
  case None
  then show ?thesis by (simp add: scan_global_def)
next
  case (Some dt)
  show ?thesis
    unfolding scan_global_def Some option.case
    by (rule for_each_mark_keys) (auto simp: remind_global_marks)
qed

lemma scan_personal_keys:
  "set (mark_keys (fst (scan_personal send now uid dl s)))
     \<subseteq> {r_key uid dl h | h. h \<in> set REMINDER_HOURS}"
proof (cases "strptime (deadline dl)")
  case None
  then show ?thesis by (simp add: scan_personal_def)
next
  case (Some dt)
  show ?thesis
    unfolding scan_personal_def Some option.case
    by (rule for_each_mark_keys) (auto simp: remind_personal_marks)
qed

lemma check_deadlines_keys:
  "set (mark_keys (fst (check_deadlines um send now m)))
     \<subseteq> {reminder_key dl h | dl h. dl \<in> set (g_deadlines m) \<and> h \<in> set REMINDER_HOURS}"
proof (cases um)
  case None
  then show ?thesis by (simp add: check_deadlines_def)
next
  case (Some us)
  have "set (mark_keys (fst (for_each (scan_global us send now) (g_deadlines m) (g_sent_reminders m))))
     \<subseteq> {reminder_key dl h | dl h. dl \<in> set (g_deadlines m) \<and> h \<in> set REMINDER_HOURS}"
  proof (rule for_each_mark_keys)
    fix x s assume "x \<in> set (g_deadlines m)"
    with scan_global_keys [of us send now x s]
    show "set (mark_keys (fst (scan_global us send now x s)))
      \<subseteq> {reminder_key dl h | dl h. dl \<in> set (g_deadlines m) \<and> h \<in> set REMINDER_HOURS}"
      by blast
  qed
  then show ?thesis by (simp add: check_deadlines_def Some split_beta)
qed

lemma check_personal_deadlines_keys:
  "set (mark_keys (fst (check_personal_deadlines send now u)))
     \<subseteq> {r_key uid dl h | uid arr dl h.
           (uid, arr) \<in> set (u_deadlines u) \<and> dl \<in> set arr \<and> h \<in> set REMINDER_HOURS}"
proof -
  let ?K = "{r_key uid dl h | uid arr dl h.
           (uid, arr) \<in> set (u_deadlines u) \<and> dl \<in> set arr \<and> h \<in> set REMINDER_HOURS}"
  have "set (mark_keys (fst (for_each (scan_user send now) (u_deadlines u) (u_sent_reminders u))))
     \<subseteq> ?K"
  proof (rule for_each_mark_keys)
    fix e s assume e: "e \<in> set (u_deadlines u)"
    obtain uid arr where p: "e = (uid, arr)" by (cases e)
    have "set (mark_keys (fst (for_each (scan_personal send now uid) arr s))) \<subseteq> ?K"
    proof (rule for_each_mark_keys)
      fix dl t assume "dl \<in> set arr"
      with e p scan_personal_keys [of send now uid dl t]
      show "set (mark_keys (fst (scan_personal send now uid dl t))) \<subseteq> ?K"
        by blast
    qed
    then show "set (mark_keys (fst (scan_user send now e s))) \<subseteq> ?K"
      by (simp add: scan_user_def p)
  qed
  then show ?thesis by (simp add: check_personal_deadlines_def split_beta)
qed

subsection \<open>The ledger keys of the two scopes\<close>

lemma hour_text:
  "h \<in> set REMINDER_HOURS \<Longrightarrow>
     str_nat h = (if h = 24 then ''24'' else if h = 72 then ''72'' else ''120'')"
  by (auto simp: REMINDER_HOURS_def str_nat_hours)

lemma r_key_longer: "r_key uid dl h \<noteq> reminder_key dl h"
proof
  assume "r_key uid dl h = reminder_key dl h"
  then have "length (r_key uid dl h) = length (reminder_key dl h)" by simp
  then show False by (simp add: r_key_def reminder_key_def)
qed

text \<open>
  Claim C6. For a threshold \<open>h\<close> of the configured list, the key of the shared scope is
  \<^verbatim>\<open>subject + "_" + deadline + "_" + str(h)\<close> and the key of the personal scope is
  \<^verbatim>\<open>user_id + "_" + subject + "_" + deadline + "_" + str(h)\<close>; every key a check assigns
  is of the form of its scope. The two keys of one deadline differ, each job reads and
  writes only the ledger of its own manager, and what one job sends is the same whether
  or not the other job has run before it.
\<close>

theorem reminder_keys_by_scope:
  "(h \<in> set REMINDER_HOURS \<longrightarrow>
      reminder_key dl h = subject dl @ ''_'' @ deadline dl @ ''_''
          @ (if h = 24 then ''24'' else if h = 72 then ''72'' else ''120'')
      \<and> r_key uid dl h = uid @ ''_'' @ subject dl @ ''_'' @ deadline dl @ ''_''
          @ (if h = 24 then ''24'' else if h = 72 then ''72'' else ''120''))
   \<and> r_key uid dl h \<noteq> reminder_key dl h
   \<and> set (mark_keys (fst (check_deadlines um send now m)))
       \<subseteq> {reminder_key dl h | dl h. dl \<in> set (g_deadlines m) \<and> h \<in> set REMINDER_HOURS}
   \<and> set (mark_keys (fst (check_personal_deadlines send now u)))
       \<subseteq> {r_key uid dl h | uid arr dl h.
             (uid, arr) \<in> set (u_deadlines u) \<and> dl \<in> set arr \<and> h \<in> set REMINDER_HOURS}
   \<and> fst (job_check_personal_deadlines send now (snd (job_check_deadlines send' now' app)))
       = fst (job_check_personal_deadlines send now app)
   \<and> fst (job_check_deadlines send now (snd (job_check_personal_deadlines send' now' app)))
       = fst (job_check_deadlines send now app)
   \<and> user_manager_deadline (snd (job_check_deadlines send now app)) = user_manager_deadline app
   \<and> global_manager (snd (job_check_personal_deadlines send now app)) = global_manager app"
proof -
  have a: "h \<in> set REMINDER_HOURS \<longrightarrow>
      reminder_key dl h = subject dl @ ''_'' @ deadline dl @ ''_''
          @ (if h = 24 then ''24'' else if h = 72 then ''72'' else ''120'')
      \<and> r_key uid dl h = uid @ ''_'' @ subject dl @ ''_'' @ deadline dl @ ''_''
          @ (if h = 24 then ''24'' else if h = 72 then ''72'' else ''120'')"
    using hour_text [of h] by (simp add: reminder_key_def r_key_def)
  have j: "fst (job_check_personal_deadlines send now (snd (job_check_deadlines send' now' app)))
       = fst (job_check_personal_deadlines send now app)"
    "fst (job_check_deadlines send now (snd (job_check_personal_deadlines send' now' app)))
       = fst (job_check_deadlines send now app)"
    "user_manager_deadline (snd (job_check_deadlines send now app)) = user_manager_deadline app"
    "global_manager (snd (job_check_personal_deadlines send now app)) = global_manager app"
    by (simp_all add: job_check_deadlines_def job_check_personal_deadlines_def split_beta)
  from a r_key_longer [of uid dl h] check_deadlines_keys [of um send now m]
    check_personal_deadlines_keys [of send now u] j
  show ?thesis by (intro conjI)
qed

text \<open>The shared reminder for Math and the personal reminder of user 42 for the same
  subject and date are both sent, in either order of the two jobs.\<close>

theorem reminder_keys_by_scope_witness:
  "24 \<in> set REMINDER_HOURS
   \<and> reminder_key ex_math 24 = ''Math_02.01.2030_24''
   \<and> r_key ''42'' ex_math 24 = ''42_Math_02.01.2030_24''
   \<and> mark_keys (fst (job_check_deadlines ex_up ex_t24 ex_bot)) = [''Math_02.01.2030_24'']
   \<and> mark_keys (fst (job_check_personal_deadlines ex_up ex_t24
        (snd (job_check_deadlines ex_up ex_t24 ex_bot)))) = [''42_Math_02.01.2030_24'']
   \<and> mark_keys (fst (job_check_personal_deadlines ex_up ex_t24 ex_bot)) = [''42_Math_02.01.2030_24'']
   \<and> mark_keys (fst (job_check_deadlines ex_up ex_t24
        (snd (job_check_personal_deadlines ex_up ex_t24 ex_bot)))) = [''Math_02.01.2030_24'']"
proof -
  have h: "24 \<in> set REMINDER_HOURS" by (simp add: REMINDER_HOURS_def)
  note t = reminder_keys_by_scope [where h = 24 and dl = ex_math and uid = "''42''"
      and send = ex_up and now = ex_t24 and send' = ex_up and now' = ex_t24 and app = ex_bot]
  from t h have k: "reminder_key ex_math 24 = ''Math_02.01.2030_24''"
    "r_key ''42'' ex_math 24 = ''42_Math_02.01.2030_24''"
    by (simp_all add: ex_math_fields)
  have g: "mark_keys (fst (job_check_deadlines ex_up ex_t24 ex_bot)) = [''Math_02.01.2030_24'']"
    by (simp add: job_check_deadlines_def ex_bot_def check_ex_board mark_keys_append
        mark_keys_sends)
  have p: "mark_keys (fst (job_check_personal_deadlines ex_up ex_t24 ex_bot))
      = [''42_Math_02.01.2030_24'']"
    by (simp add: job_check_personal_deadlines_def ex_bot_def check_ex_desk)
  from t have i: "fst (job_check_personal_deadlines ex_up ex_t24
        (snd (job_check_deadlines ex_up ex_t24 ex_bot)))
       = fst (job_check_personal_deadlines ex_up ex_t24 ex_bot)"
    "fst (job_check_deadlines ex_up ex_t24 (snd (job_check_personal_deadlines ex_up ex_t24 ex_bot)))
       = fst (job_check_deadlines ex_up ex_t24 ex_bot)"
    by blast+
  from h k g p show ?thesis
    unfolding i by (intro conjI)
qed

subsection \<open>Facts about the date texts that the parser takes\<close>









































subsection \<open>Adding a deadline\<close>




subsection \<open>Facts about the pairs that are due in a check\<close>


lemma for_each_grows:
  assumes "\<And>x s. dom s \<subseteq> dom (snd (f x s))"
  shows "dom s \<subseteq> dom (snd (for_each f xs s))"
proof (induction xs arbitrary: s)
  case Nil
  show ?case by simp
next
  case (Cons y ys)
  have "dom s \<subseteq> dom (snd (f y s))" by (rule assms)
  also have "\<dots> \<subseteq> dom (snd (for_each f ys (snd (f y s))))" by (rule Cons.IH)
  finally show ?case by (simp add: split_beta)
qed

lemma for_each_reaches:
  assumes grow: "\<And>y s. dom s \<subseteq> dom (snd (f y s))"
    and hit: "\<And>s. k \<in> dom (snd (f x s))"
  shows "x \<in> set xs \<Longrightarrow> k \<in> dom (snd (for_each f xs s))"
proof (induction xs arbitrary: s)
  case Nil
  then show ?case by simp
next
  case (Cons y ys)
  show ?case
  proof (cases "x = y")
    case True
    have "k \<in> dom (snd (f y s))" unfolding True [symmetric] by (rule hit)
    moreover have "dom (snd (f y s)) \<subseteq> dom (snd (for_each f ys (snd (f y s))))"
      by (rule for_each_grows) (rule grow)
    ultimately show ?thesis by (auto simp: split_beta)
  next
    case False
    with Cons.prems have "x \<in> set ys" by simp
    then have "k \<in> dom (snd (for_each f ys (snd (f y s))))" by (rule Cons.IH)
    then show ?thesis by (simp add: split_beta)
  qed
qed

lemma remind_global_due:
  "in_window h hl \<Longrightarrow> reminder_key dl h \<in> dom (snd (remind_global us send now dl hl h s))"
  by (auto simp: remind_global_def Let_def)

lemma remind_personal_due:
  "in_window h hl \<Longrightarrow> r_key uid dl h \<in> dom (snd (remind_personal send now uid dl hl h s))"
  by (auto simp: remind_personal_def Let_def)

lemma scan_global_due:
  assumes "strptime (deadline dl) = Some dt" "h \<in> set REMINDER_HOURS"
    "in_window h (hours_left dt now)"
  shows "reminder_key dl h \<in> dom (snd (scan_global us send now dl s))"
proof -
  have "reminder_key dl h
      \<in> dom (snd (for_each (remind_global us send now dl (hours_left dt now)) REMINDER_HOURS s))"
    by (rule for_each_reaches [where x = h])
      (rule fresh_trace_once(4) [OF remind_global_fresh], rule remind_global_due [OF assms(3)],
        rule assms(2))
  then show ?thesis by (simp add: scan_global_def assms(1))
qed

lemma scan_personal_due:
  assumes "strptime (deadline dl) = Some dt" "h \<in> set REMINDER_HOURS"
    "in_window h (hours_left dt now)"
  shows "r_key uid dl h \<in> dom (snd (scan_personal send now uid dl s))"
proof -
  have "r_key uid dl h
      \<in> dom (snd (for_each (remind_personal send now uid dl (hours_left dt now)) REMINDER_HOURS s))"
    by (rule for_each_reaches [where x = h])
      (rule fresh_trace_once(4) [OF remind_personal_fresh], rule remind_personal_due [OF assms(3)],
        rule assms(2))
  then show ?thesis by (simp add: scan_personal_def assms(1))
qed

lemma check_deadlines_due:
  assumes "dl \<in> set (g_deadlines m)" "strptime (deadline dl) = Some dt"
    "h \<in> set REMINDER_HOURS" "in_window h (hours_left dt now)"
  shows "reminder_key dl h \<in> dom (g_sent_reminders (snd (check_deadlines (Some us) send now m)))"
proof -
  have "reminder_key dl h
      \<in> dom (snd (for_each (scan_global us send now) (g_deadlines m) (g_sent_reminders m)))"
    by (rule for_each_reaches [where x = dl])
      (rule scan_global_grows, rule scan_global_due [OF assms(2,3,4)], rule assms(1))
  then show ?thesis by (simp add: check_deadlines_def split_beta)
qed

lemma check_personal_deadlines_due:
  assumes "(uid, arr) \<in> set (u_deadlines u)" "dl \<in> set arr" "strptime (deadline dl) = Some dt"
    "h \<in> set REMINDER_HOURS" "in_window h (hours_left dt now)"
  shows "r_key uid dl h \<in> dom (u_sent_reminders (snd (check_personal_deadlines send now u)))"
proof -
  have inner: "r_key uid dl h \<in> dom (snd (scan_user send now (uid, arr) s))" for s
    unfolding scan_user_def prod.case
    by (rule for_each_reaches [where x = dl])
      (rule scan_personal_grows, rule scan_personal_due [OF assms(3,4,5)], rule assms(2))
  have "r_key uid dl h
      \<in> dom (snd (for_each (scan_user send now) (u_deadlines u) (u_sent_reminders u)))"
    by (rule for_each_reaches [where x = "(uid, arr)"])
      (rule scan_user_grows, rule inner, rule assms(1))
  then show ?thesis by (simp add: check_personal_deadlines_def split_beta)
qed

subsection \<open>Running a check twice\<close>

text \<open>
  Claim C5. A second run of a check with the same value of \<open>now\<close>, on the manager as
  the first run left it, sends nothing and leaves the manager unchanged, whatever the
  transport does in either run; and after the first run every pair of a stored deadline
  and a threshold that is due at \<open>now\<close> has its key in the ledger (the shared key for the
  shared check, the key of the user for the personal check).
\<close>

theorem second_check_sends_nothing:
  "check_deadlines um send' now (snd (check_deadlines um send now m))
     = ([], snd (check_deadlines um send now m))
   \<and> check_personal_deadlines send' now (snd (check_personal_deadlines send now u))
     = ([], snd (check_personal_deadlines send now u))
   \<and> (dl \<in> set (g_deadlines m) \<and> strptime (deadline dl) = Some dt \<and> h \<in> set REMINDER_HOURS
        \<and> in_window h (hours_left dt now) \<longrightarrow>
        reminder_key dl h
          \<in> dom (g_sent_reminders (snd (check_deadlines (Some us) send now m))))
   \<and> ((uid, arr) \<in> set (u_deadlines u) \<and> dl \<in> set arr \<and> strptime (deadline dl) = Some dt
        \<and> h \<in> set REMINDER_HOURS \<and> in_window h (hours_left dt now) \<longrightarrow>
        r_key uid dl h
          \<in> dom (u_sent_reminders (snd (check_personal_deadlines send now u))))"
proof (intro conjI impI)
  show "check_deadlines um send' now (snd (check_deadlines um send now m))
     = ([], snd (check_deadlines um send now m))"
  proof (cases um)
    case None
    then show ?thesis by (simp add: check_deadlines_def)
  next
    case (Some us)
    let ?t = "snd (for_each (scan_global us send now) (g_deadlines m) (g_sent_reminders m))"
    have "dom ?t \<subseteq> dom ?t" by simp
    then have "for_each (scan_global us send' now) (g_deadlines m) ?t = ([], ?t)"
      by (rule for_each_settles [rotated 2]) (rule scan_global_grows, rule scan_global_quiet)
    then show ?thesis
      by (simp add: check_deadlines_def Some split_beta)
  qed
  show "check_personal_deadlines send' now (snd (check_personal_deadlines send now u))
     = ([], snd (check_personal_deadlines send now u))"
  proof -
    let ?t = "snd (for_each (scan_user send now) (u_deadlines u) (u_sent_reminders u))"
    have "dom ?t \<subseteq> dom ?t" by simp
    then have "for_each (scan_user send' now) (u_deadlines u) ?t = ([], ?t)"
      by (rule for_each_settles [rotated 2]) (rule scan_user_grows, rule scan_user_quiet)
    then show ?thesis
      by (simp add: check_personal_deadlines_def split_beta)
  qed
  show "reminder_key dl h
          \<in> dom (g_sent_reminders (snd (check_deadlines (Some us) send now m)))"
    if "dl \<in> set (g_deadlines m) \<and> strptime (deadline dl) = Some dt \<and> h \<in> set REMINDER_HOURS
        \<and> in_window h (hours_left dt now)"
    using that by (intro check_deadlines_due [where dt = dt]) blast+
  show "r_key uid dl h
          \<in> dom (u_sent_reminders (snd (check_personal_deadlines send now u)))"
    if "(uid, arr) \<in> set (u_deadlines u) \<and> dl \<in> set arr \<and> strptime (deadline dl) = Some dt
        \<and> h \<in> set REMINDER_HOURS \<and> in_window h (hours_left dt now)"
    using that by (intro check_personal_deadlines_due [where dt = dt and arr = arr]) blast+
qed

text \<open>At midnight of the first of January the first run sends the reminder for Math
  (to both users of the registry, and to user 42) and writes the key; the second run emits
  no event.\<close>

theorem second_check_sends_nothing_witness:
  "ex_math \<in> set (g_deadlines ex_board) \<and> strptime (deadline ex_math) = Some ex_due
   \<and> 24 \<in> set REMINDER_HOURS \<and> in_window 24 (hours_left ex_due ex_t24)
   \<and> fst (check_deadlines (Some ex_registry) ex_up ex_t24 ex_board)
       = [Send ''Math_02.01.2030_24'' ''7'' (ex_math_msg GlobalDeadline) True,
          Send ''Math_02.01.2030_24'' ''42'' (ex_math_msg GlobalDeadline) True,
          Mark ''Math_02.01.2030_24'' ''2030-01-01 00:00:00'']
   \<and> reminder_key ex_math 24
       \<in> dom (g_sent_reminders (snd (check_deadlines (Some ex_registry) ex_up ex_t24 ex_board)))
   \<and> fst (check_deadlines (Some ex_registry) ex_up ex_t24
         (snd (check_deadlines (Some ex_registry) ex_up ex_t24 ex_board))) = []
   \<and> (''42'', [ex_broken, ex_math]) \<in> set (u_deadlines ex_desk)
   \<and> fst (check_personal_deadlines ex_up ex_t24 ex_desk)
       = [Send ''42_Math_02.01.2030_24'' ''42'' (ex_math_msg PersonalDeadline) True,
          Mark ''42_Math_02.01.2030_24'' ''2030-01-01 00:00:00'']
   \<and> r_key ''42'' ex_math 24
       \<in> dom (u_sent_reminders (snd (check_personal_deadlines ex_up ex_t24 ex_desk)))
   \<and> fst (check_personal_deadlines ex_up ex_t24
         (snd (check_personal_deadlines ex_up ex_t24 ex_desk))) = []"
proof -
  have a: "ex_math \<in> set (g_deadlines ex_board)"
    "(''42'', [ex_broken, ex_math]) \<in> set (u_deadlines ex_desk)" "ex_math \<in> set [ex_broken, ex_math]"
    by (simp_all add: ex_board_def ex_desk_def)
  note b = strptime_math_due(1)
  have c: "24 \<in> set REMINDER_HOURS" by (simp add: REMINDER_HOURS_def)
  have d: "in_window 24 (hours_left ex_due ex_t24)"
    by (simp add: hours_left_due in_window_ex)
  have g: "fst (check_deadlines (Some ex_registry) ex_up ex_t24 ex_board)
       = [Send ''Math_02.01.2030_24'' ''7'' (ex_math_msg GlobalDeadline) True,
          Send ''Math_02.01.2030_24'' ''42'' (ex_math_msg GlobalDeadline) True,
          Mark ''Math_02.01.2030_24'' ''2030-01-01 00:00:00'']"
    by (simp add: check_ex_board ex_registry_def ex_up_def)
  have p: "fst (check_personal_deadlines ex_up ex_t24 ex_desk)
       = [Send ''42_Math_02.01.2030_24'' ''42'' (ex_math_msg PersonalDeadline) True,
          Mark ''42_Math_02.01.2030_24'' ''2030-01-01 00:00:00'']"
    by (simp add: check_ex_desk ex_up_def)
  note t = second_check_sends_nothing [where um = "Some ex_registry" and send' = ex_up
      and send = ex_up and now = ex_t24 and m = ex_board and u = ex_desk and dl = ex_math
      and dt = ex_due and h = 24 and us = ex_registry and uid = "''42''"
      and arr = "[ex_broken, ex_math]"]
  from t a b c d have k: "reminder_key ex_math 24
       \<in> dom (g_sent_reminders (snd (check_deadlines (Some ex_registry) ex_up ex_t24 ex_board)))"
    "r_key ''42'' ex_math 24
       \<in> dom (u_sent_reminders (snd (check_personal_deadlines ex_up ex_t24 ex_desk)))"
    by blast+
  from t have e: "fst (check_deadlines (Some ex_registry) ex_up ex_t24
         (snd (check_deadlines (Some ex_registry) ex_up ex_t24 ex_board))) = []"
    "fst (check_personal_deadlines ex_up ex_t24
         (snd (check_personal_deadlines ex_up ex_t24 ex_desk))) = []"
    by simp_all
  from a(1,2) b c d g k e p show ?thesis by (intro conjI)
qed

subsection \<open>Facts about the keys and the events of a check\<close>






































subsection \<open>The threshold window\<close>



end
